theory Spec2Isabelle
  imports Complex_Main
begin

section \<open>Supplier insights: data model and insight-generation engine\<close>

text \<open>
  A shallow embedding of \<^verbatim>\<open>app/models.py\<close>, \<^verbatim>\<open>app/llm_service.py\<close> and the
  \<^verbatim>\<open>generate_insights\<close> handler of \<^verbatim>\<open>app/main.py\<close>.

  Conventions. A Python \<^verbatim>\<open>float\<close> is an IEEE binary64 value. The spend arithmetic
  of the fallback (the sum of the spends, the ratio of a spend to it, the percentage, the
  division by \<^verbatim>\<open>1e6\<close>) is modelled on \<open>pyfloat\<close>: the finite values as the reals they
  denote, the two infinities and NaN, every operation rounded to nearest, ties to even,
  overflowing to infinity. A float stored in a record or a parsed object is the finite
  real it denotes (an infinite or NaN field is outside the model); the delivery
  validator's product and the confidence arithmetic are exact on these reals. A Python
  \<^verbatim>\<open>int\<close> is an \<^typ>\<open>int\<close>. A \<^verbatim>\<open>str\<close> is a \<^typ>\<open>string\<close> whose characters are the
  code points below 256. Every exception the code can raise is a value of \<open>error\<close>, and
  a function that can raise returns \<open>error + 'a\<close>.
\<close>

subsection \<open>Exceptions\<close>

datatype error =
    UpstreamError          \<comment> \<open>\<^verbatim>\<open>Exception("Groq API error ...")\<close> and transport failures\<close>
  | JSONDecodeError        \<comment> \<open>\<^verbatim>\<open>json.JSONDecodeError\<close>, a subclass of \<^verbatim>\<open>ValueError\<close>\<close>
  | ValueError
  | AttributeError
  | TypeError
  | OverflowError
  | ZeroDivisionError
  | RecursionError         \<comment> \<open>raised by \<^verbatim>\<open>json.loads\<close> on deeply nested text\<close>
  | ValidationError        \<comment> \<open>pydantic's \<^verbatim>\<open>ValidationError\<close>\<close>
  | HTTPException nat      \<comment> \<open>\<^verbatim>\<open>HTTPException(status_code=...)\<close>\<close>

text \<open>\<^verbatim>\<open>isinstance(e, ValueError)\<close>: the class a failed parse raises.\<close>

fun is_ValueError :: "error \<Rightarrow> bool" where
  "is_ValueError ValueError = True"
| "is_ValueError JSONDecodeError = True"
| "is_ValueError _ = False"

subsection \<open>Binary64 arithmetic\<close>

text \<open>Rounding to the nearest integer, ties to the even one (\<^verbatim>\<open>round\<close>, \<^verbatim>\<open>:.Nf\<close>, and
  the rounding of a significand).\<close>

definition round_half_even :: "real \<Rightarrow> int" where
  "round_half_even x =
     (let f = \<lfloor>x\<rfloor>; d = x - of_int f in
      if d < 1/2 then f else if 1/2 < d then f + 1 else if even f then f else f + 1)"

definition pow2 :: "int \<Rightarrow> real" where
  "pow2 e = (if 0 \<le> e then 2 ^ nat e else 1 / 2 ^ nat (- e))"

text \<open>
  The binary64 value nearest to a real, ties to the even significand, before the range
  check: 53 significant bits from the exponent of \<open>x\<close> down, and never below the
  subnormal spacing \<^verbatim>\<open>2**-1074\<close>.
\<close>

definition rnd64 :: "real \<Rightarrow> real" where
  "rnd64 x =
     (if x = 0 then 0
      else let e = max (\<lfloor>log 2 \<bar>x\<bar>\<rfloor> - 52) (- 1074)
           in of_int (round_half_even (x / pow2 e)) * pow2 e)"

text \<open>The reals that finite binary64 values denote.\<close>

definition is_double :: "real \<Rightarrow> bool" where
  "is_double x \<longleftrightarrow> rnd64 x = x \<and> \<bar>x\<bar> < 2 ^ 1024"

text \<open>A Python \<^verbatim>\<open>float\<close>; zero is unsigned.\<close>

datatype pyfloat = Fin real | PInf | NInf | NaN

text \<open>
  The result of an operation whose exact value is \<open>x\<close>: from \<^verbatim>\<open>2**1024 - 2**970\<close> on, halfway
  between the largest finite value and \<^verbatim>\<open>2**1024\<close>, it rounds to an infinity.
\<close>

definition fl :: "real \<Rightarrow> pyfloat" where
  "fl x = (if 2 ^ 1024 - 2 ^ 970 \<le> \<bar>x\<bar> then (if 0 < x then PInf else NInf)
           else Fin (rnd64 x))"

text \<open>\<^verbatim>\<open>x + y\<close> on floats.\<close>

fun fadd :: "pyfloat \<Rightarrow> pyfloat \<Rightarrow> pyfloat" where
  "fadd (Fin a) (Fin b) = fl (a + b)"
| "fadd NaN y = NaN"
| "fadd x NaN = NaN"
| "fadd PInf NInf = NaN"
| "fadd NInf PInf = NaN"
| "fadd PInf y = PInf"
| "fadd x PInf = PInf"
| "fadd NInf y = NInf"
| "fadd x NInf = NInf"

text \<open>\<^verbatim>\<open>x * y\<close> on floats.\<close>

fun fmul :: "pyfloat \<Rightarrow> pyfloat \<Rightarrow> pyfloat" where
  "fmul (Fin a) (Fin b) = fl (a * b)"
| "fmul NaN y = NaN"
| "fmul x NaN = NaN"
| "fmul (Fin a) PInf = (if a = 0 then NaN else if 0 < a then PInf else NInf)"
| "fmul (Fin a) NInf = (if a = 0 then NaN else if 0 < a then NInf else PInf)"
| "fmul PInf (Fin b) = (if b = 0 then NaN else if 0 < b then PInf else NInf)"
| "fmul NInf (Fin b) = (if b = 0 then NaN else if 0 < b then NInf else PInf)"
| "fmul PInf PInf = PInf"
| "fmul NInf NInf = PInf"
| "fmul PInf NInf = NInf"
| "fmul NInf PInf = NInf"

text \<open>
  \<^verbatim>\<open>x / y\<close> on floats, for a divisor other than zero; on a zero divisor Python raises
  \<^verbatim>\<open>ZeroDivisionError\<close>, which the callers below test for before they divide.
\<close>

fun fdiv :: "pyfloat \<Rightarrow> pyfloat \<Rightarrow> pyfloat" where
  "fdiv (Fin a) (Fin b) = fl (a / b)"
| "fdiv NaN y = NaN"
| "fdiv x NaN = NaN"
| "fdiv (Fin a) PInf = Fin 0"
| "fdiv (Fin a) NInf = Fin 0"
| "fdiv PInf (Fin b) = (if 0 < b then PInf else NInf)"
| "fdiv NInf (Fin b) = (if 0 < b then NInf else PInf)"
| "fdiv x y = NaN"

text \<open>\<^verbatim>\<open>x < y\<close> and \<^verbatim>\<open>x <= y\<close> on floats: false when either side is NaN.\<close>

fun fless :: "pyfloat \<Rightarrow> pyfloat \<Rightarrow> bool" where
  "fless (Fin a) (Fin b) \<longleftrightarrow> a < b"
| "fless NaN y \<longleftrightarrow> False"
| "fless x NaN \<longleftrightarrow> False"
| "fless x NInf \<longleftrightarrow> False"
| "fless NInf y \<longleftrightarrow> True"
| "fless PInf y \<longleftrightarrow> False"
| "fless x PInf \<longleftrightarrow> True"

fun fle :: "pyfloat \<Rightarrow> pyfloat \<Rightarrow> bool" where
  "fle (Fin a) (Fin b) \<longleftrightarrow> a \<le> b"
| "fle NaN y \<longleftrightarrow> False"
| "fle x NaN \<longleftrightarrow> False"
| "fle NInf y \<longleftrightarrow> True"
| "fle x PInf \<longleftrightarrow> True"
| "fle x y \<longleftrightarrow> False"

text \<open>The value of the literal \<^verbatim>\<open>0.4\<close>: the binary64 value nearest to 2/5.\<close>

definition float_0_4 :: real where
  "float_0_4 = rnd64 (2 / 5)"

subsection \<open>models.py\<close>

datatype RiskLevel = LOW | MEDIUM | HIGH

record Supplier =
  supplier_name :: string
  annual_spend_usd :: real
  on_time_delivery_pct :: real
  contract_expiry_months :: int
  single_source_dependency :: bool
  region :: string

record InsightRequest =
  category :: string
  suppliers :: "Supplier list"

record InsightResponse =
  resp_category :: string
  overall_risk_level :: RiskLevel
  key_risks :: "string list"
  negotiation_levers :: "string list"
  recommended_actions_next_90_days :: "string list"
  confidence_score :: real

text \<open>
  \<^verbatim>\<open>Supplier.convert_decimal_to_percentage\<close>, the \<^verbatim>\<open>mode='before'\<close> validator, on a
  numeric input: \<^verbatim>\<open>if isinstance(v, (int, float)) and 0 <= v <= 1: return v * 100\<close>.
\<close>

definition convert_decimal_to_percentage :: "real \<Rightarrow> real" where
  "convert_decimal_to_percentage v = (if 0 \<le> v \<and> v \<le> 1 then v * 100 else v)"

text \<open>
  \<^verbatim>\<open>Supplier(...)\<close> on numeric field inputs: the before-validator runs once on the raw
  delivery value, then the \<^verbatim>\<open>Field\<close> constraints are checked on every field.
\<close>

definition Supplier_init ::
  "string \<Rightarrow> real \<Rightarrow> real \<Rightarrow> int \<Rightarrow> bool \<Rightarrow> string \<Rightarrow> error + Supplier" where
  "Supplier_init name spend delivery months single reg =
     (let d = convert_decimal_to_percentage delivery in
      if 1 \<le> length name \<and> length name \<le> 200 \<and> 0 < spend \<and> 0 \<le> d \<and> d \<le> 100
         \<and> 0 \<le> months \<and> 1 \<le> length reg
      then Inr \<lparr>supplier_name = name, annual_spend_usd = spend, on_time_delivery_pct = d,
                contract_expiry_months = months, single_source_dependency = single,
                region = reg\<rparr>
      else Inl ValidationError)"

text \<open>The \<^verbatim>\<open>Field\<close> constraints, as a predicate on a stored record whose spend is a
  binary64 value.\<close>

definition valid_supplier :: "Supplier \<Rightarrow> bool" where
  "valid_supplier s \<longleftrightarrow>
     1 \<le> length (supplier_name s) \<and> length (supplier_name s) \<le> 200
     \<and> is_double (annual_spend_usd s) \<and> 0 < annual_spend_usd s
     \<and> 0 \<le> on_time_delivery_pct s \<and> on_time_delivery_pct s \<le> 100
     \<and> 0 \<le> contract_expiry_months s
     \<and> 1 \<le> length (region s)"

definition valid_request :: "InsightRequest \<Rightarrow> bool" where
  "valid_request req \<longleftrightarrow>
     1 \<le> length (category req) \<and> length (category req) \<le> 100
     \<and> suppliers req \<noteq> [] \<and> list_all valid_supplier (suppliers req)"

text \<open>
  \<^verbatim>\<open>InsightRequest.total_spend\<close>: \<^verbatim>\<open>sum(s.annual_spend_usd for s in self.suppliers)\<close>
  adds the spends to 0 from left to right, each addition rounded (as CPython does up to
  version 3.11; later versions compensate the rounding errors of three or more terms).
\<close>

definition total_spend :: "InsightRequest \<Rightarrow> pyfloat" where
  "total_spend req = foldl fadd (Fin 0) (map (\<lambda>s. Fin (annual_spend_usd s)) (suppliers req))"

text \<open>
  \<^verbatim>\<open>InsightResponse(...)\<close>: the three lists have \<^verbatim>\<open>min_length=1, max_length=10\<close> and the
  confidence has \<^verbatim>\<open>ge=0, le=1\<close>.
\<close>

definition InsightResponse_init ::
  "string \<Rightarrow> RiskLevel \<Rightarrow> string list \<Rightarrow> string list \<Rightarrow> string list \<Rightarrow> real
     \<Rightarrow> error + InsightResponse" where
  "InsightResponse_init cat lvl risks levers actions conf =
     (if 1 \<le> length risks \<and> length risks \<le> 10
         \<and> 1 \<le> length levers \<and> length levers \<le> 10
         \<and> 1 \<le> length actions \<and> length actions \<le> 10
         \<and> 0 \<le> conf \<and> conf \<le> 1
      then Inr \<lparr>resp_category = cat, overall_risk_level = lvl, key_risks = risks,
                negotiation_levers = levers, recommended_actions_next_90_days = actions,
                confidence_score = conf\<rparr>
      else Inl ValidationError)"

subsection \<open>Number formatting\<close>

text \<open>\<^verbatim>\<open>round(x, 2)\<close>\<close>

definition round2 :: "real \<Rightarrow> real" where
  "round2 x = of_int (round_half_even (x * 100)) / 100"

fun str_nat :: "nat \<Rightarrow> string" where
  "str_nat n =
     (if n < 10 then [''0123456789'' ! n]
      else str_nat (n div 10) @ [''0123456789'' ! (n mod 10)])"

declare str_nat.simps [simp del]

text \<open>\<^verbatim>\<open>str(i)\<close> for an int, as an f-string field prints it.\<close>

definition str_int :: "int \<Rightarrow> string" where
  "str_int i = (if i < 0 then ''-'' @ str_nat (nat (- i)) else str_nat (nat i))"

text \<open>\<^verbatim>\<open>f"{x:.0f}"\<close> and \<^verbatim>\<open>f"{x:.1f}"\<close>\<close>

definition fmt_0f :: "real \<Rightarrow> string" where
  "fmt_0f x = (if x < 0 then ''-'' else []) @ str_nat (nat (round_half_even \<bar>x\<bar>))"

definition fmt_1f :: "real \<Rightarrow> string" where
  "fmt_1f x =
     (let n = nat (round_half_even (\<bar>x\<bar> * 10)) in
      (if x < 0 then ''-'' else []) @ str_nat (n div 10) @ ''.'' @ str_nat (n mod 10))"

text \<open>The same two formats on a float that may be infinite or NaN.\<close>

fun fmt_0f_float :: "pyfloat \<Rightarrow> string" where
  "fmt_0f_float (Fin x) = fmt_0f x"
| "fmt_0f_float PInf = ''inf''"
| "fmt_0f_float NInf = ''-inf''"
| "fmt_0f_float NaN = ''nan''"

fun fmt_1f_float :: "pyfloat \<Rightarrow> string" where
  "fmt_1f_float (Fin x) = fmt_1f x"
| "fmt_1f_float PInf = ''inf''"
| "fmt_1f_float NInf = ''-inf''"
| "fmt_1f_float NaN = ''nan''"

subsection \<open>llm_service.py: the rule-based fallback\<close>

text \<open>The f-strings of \<^verbatim>\<open>FallbackInsightGenerator.generate\<close>; \<open>pct\<close> is
  \<^verbatim>\<open>(s.annual_spend_usd / total_spend) * 100\<close>.\<close>

definition risk_single_source :: "pyfloat \<Rightarrow> Supplier \<Rightarrow> string" where
  "risk_single_source pct s =
     ''Single-source: '' @ supplier_name s @ '' ($''
       @ fmt_1f_float (fdiv (Fin (annual_spend_usd s)) (Fin 1000000))
       @ ''M, '' @ fmt_0f_float pct @ ''%)''"

definition risk_urgent :: "Supplier \<Rightarrow> string" where
  "risk_urgent s =
     ''Urgent: '' @ supplier_name s @ '' expires in '' @ str_int (contract_expiry_months s)
       @ '' months''"

definition risk_low_delivery :: "Supplier \<Rightarrow> string" where
  "risk_low_delivery s =
     ''Low delivery: '' @ supplier_name s @ '' at '' @ fmt_0f (on_time_delivery_pct s) @ ''%''"

definition action_renew :: "Supplier \<Rightarrow> string" where
  "action_renew s = ''Renew contract with '' @ supplier_name s"

definition action_talks :: "Supplier \<Rightarrow> string" where
  "action_talks s = ''Start renewal talks with '' @ supplier_name s"

definition lever_top :: "Supplier \<Rightarrow> string" where
  "lever_top s =
     ''Top performer: '' @ supplier_name s @ '' ('' @ fmt_0f (on_time_delivery_pct s) @ ''%)''"

definition lever_volume :: "pyfloat \<Rightarrow> Supplier \<Rightarrow> string" where
  "lever_volume pct s =
     ''Volume leverage: '' @ supplier_name s @ '' ('' @ fmt_0f_float pct @ ''% spend)''"

text \<open>
  One iteration of the \<^verbatim>\<open>for s in request.suppliers\<close> loop; the state is the three
  lists \<^verbatim>\<open>(risks, levers, actions)\<close>, each appended to at its end, statement by
  statement.
\<close>

definition fallback_step ::
  "pyfloat \<Rightarrow> string list \<times> string list \<times> string list \<Rightarrow> Supplier
     \<Rightarrow> string list \<times> string list \<times> string list" where
  "fallback_step tot st s =
     (case st of (risks, levers, actions) \<Rightarrow>
      let pct = fmul (fdiv (Fin (annual_spend_usd s)) tot) (Fin 100);
          risks1 = (if single_source_dependency s
                    then risks @ [risk_single_source pct s] else risks);
          risks2 = (if contract_expiry_months s \<le> 3
                    then risks1 @ [risk_urgent s] else risks1);
          actions1 = (if contract_expiry_months s \<le> 3 then actions @ [action_renew s]
                      else if contract_expiry_months s \<le> 6 then actions @ [action_talks s]
                      else actions);
          risks3 = (if on_time_delivery_pct s < 85
                    then risks2 @ [risk_low_delivery s] else risks2);
          levers1 = (if 95 \<le> on_time_delivery_pct s
                     then levers @ [lever_top s] else levers);
          levers2 = (if fle (Fin 30) pct
                     then levers1 @ [lever_volume pct s] else levers1)
      in (risks3, levers2, actions1))"

text \<open>\<^verbatim>\<open>xs[:5] or [default]\<close>\<close>

definition first5_or :: "string list \<Rightarrow> string \<Rightarrow> string list" where
  "first5_or xs dflt = (if take 5 xs = [] then [dflt] else take 5 xs)"

text \<open>The three \<^verbatim>\<open>any(...)\<close> generators that \<^verbatim>\<open>high_risk\<close> is the disjunction of, and the
  two of \<^verbatim>\<open>med_risk\<close>.\<close>

definition high_risk :: "pyfloat \<Rightarrow> Supplier list \<Rightarrow> bool" where
  "high_risk tot ss \<longleftrightarrow>
     list_ex (\<lambda>s. single_source_dependency s
                  \<and> fless (Fin float_0_4) (fdiv (Fin (annual_spend_usd s)) tot)) ss
     \<or> list_ex (\<lambda>s. contract_expiry_months s \<le> 3) ss
     \<or> list_ex (\<lambda>s. on_time_delivery_pct s < 80) ss"

definition med_risk :: "Supplier list \<Rightarrow> bool" where
  "med_risk ss \<longleftrightarrow>
     list_ex (\<lambda>s. contract_expiry_months s \<le> 6) ss
     \<or> list_ex (\<lambda>s. on_time_delivery_pct s < 90) ss"

text \<open>
  \<^verbatim>\<open>FallbackInsightGenerator.generate\<close>. The division by \<^verbatim>\<open>total_spend\<close> in the first
  iteration raises \<^verbatim>\<open>ZeroDivisionError\<close> when the total is zero; with no supplier the
  loop body and the generators never run.
\<close>

definition FallbackInsightGenerator_generate :: "InsightRequest \<Rightarrow> error + InsightResponse" where
  "FallbackInsightGenerator_generate request =
     (let tot = total_spend request in
      if suppliers request \<noteq> [] \<and> tot = Fin 0 then Inl ZeroDivisionError
      else
        (case foldl (fallback_step tot) ([], [], []) (suppliers request) of
           (risks, levers, actions) \<Rightarrow>
             let level = (if high_risk tot (suppliers request) then HIGH
                          else if med_risk (suppliers request) then MEDIUM
                          else LOW)
             in InsightResponse_init (category request) level
                  (first5_or risks ''No critical risks identified'')
                  (first5_or levers ''Review contracts for opportunities'')
                  (first5_or actions ''Quarterly supplier review'')
                  0.65))"

text \<open>
  The specification's reading of the spend share, in the arithmetic the code runs: the
  total is the running sum of the spends in supplier order, each step rounded; the ratio
  is the rounded quotient of a spend by that total; the share is the ratio times 100,
  rounded.
\<close>

fun running_total :: "pyfloat \<Rightarrow> real list \<Rightarrow> pyfloat" where
  "running_total acc [] = acc"
| "running_total acc (x # xs) = running_total (fadd acc (Fin x)) xs"

definition rounded_total :: "InsightRequest \<Rightarrow> pyfloat" where
  "rounded_total req = running_total (Fin 0) (map annual_spend_usd (suppliers req))"

definition rounded_ratio :: "InsightRequest \<Rightarrow> Supplier \<Rightarrow> pyfloat" where
  "rounded_ratio req s = fdiv (Fin (annual_spend_usd s)) (rounded_total req)"

definition spend_share :: "InsightRequest \<Rightarrow> Supplier \<Rightarrow> pyfloat" where
  "spend_share req s = fmul (rounded_ratio req s) (Fin 100)"

text \<open>
  The specification's reading of the loop: what one supplier contributes to each list,
  and the collected lists as the concatenation of the contributions in supplier order.
\<close>

definition supplier_risks :: "InsightRequest \<Rightarrow> Supplier \<Rightarrow> string list" where
  "supplier_risks req s =
     (if single_source_dependency s
      then [risk_single_source (spend_share req s) s] else [])
     @ (if contract_expiry_months s \<le> 3 then [risk_urgent s] else [])
     @ (if on_time_delivery_pct s < 85 then [risk_low_delivery s] else [])"

definition supplier_levers :: "InsightRequest \<Rightarrow> Supplier \<Rightarrow> string list" where
  "supplier_levers req s =
     (if 95 \<le> on_time_delivery_pct s then [lever_top s] else [])
     @ (if fle (Fin 30) (spend_share req s)
        then [lever_volume (spend_share req s) s] else [])"

definition supplier_actions :: "Supplier \<Rightarrow> string list" where
  "supplier_actions s =
     (if contract_expiry_months s \<le> 3 then [action_renew s]
      else if contract_expiry_months s \<le> 6 then [action_talks s]
      else [])"

definition collected_risks :: "InsightRequest \<Rightarrow> string list" where
  "collected_risks req = concat (map (supplier_risks req) (suppliers req))"

definition collected_levers :: "InsightRequest \<Rightarrow> string list" where
  "collected_levers req = concat (map (supplier_levers req) (suppliers req))"

definition collected_actions :: "InsightRequest \<Rightarrow> string list" where
  "collected_actions req = concat (map supplier_actions (suppliers req))"


text \<open>
  The risk rule in the specification's words, on the rounded ratio: a supplier triggers
  High when it is single-source with a ratio above the value of \<^verbatim>\<open>0.4\<close>, or expires
  within 3 months, or delivers below 80; it triggers Medium when it expires within 6
  months or delivers below 90.
\<close>

definition triggers_high :: "InsightRequest \<Rightarrow> Supplier \<Rightarrow> bool" where
  "triggers_high req s \<longleftrightarrow>
     (single_source_dependency s \<and> fless (Fin float_0_4) (rounded_ratio req s))
     \<or> contract_expiry_months s \<le> 3
     \<or> on_time_delivery_pct s < 80"






subsection \<open>llm_service.py: parsing the endpoint's text\<close>

text \<open>A value \<^verbatim>\<open>json.loads\<close> returns.\<close>

datatype json =
    JNull
  | JBool bool
  | JInt int
  | JFloat real
  | JStr string
  | JArr "json list"
  | JObj "(string \<times> json) list"

text \<open>
  What the code takes from outside the repository: \<^verbatim>\<open>json.loads\<close>, which returns a
  value or raises (\<^verbatim>\<open>JSONDecodeError\<close> on text that is not JSON, but also
  \<^verbatim>\<open>RecursionError\<close> on deep nesting and a plain \<^verbatim>\<open>ValueError\<close> on an integer literal
  beyond the digit limit), the builtin \<^verbatim>\<open>float\<close> on a \<^verbatim>\<open>str\<close> (\<open>None\<close> is
  \<^verbatim>\<open>ValueError\<close>), the literal \<^verbatim>\<open>build_system_prompt\<close> returns, and the text
  \<^verbatim>\<open>build_user_prompt\<close> renders with \<^verbatim>\<open>json.dumps\<close> and a \<^verbatim>\<open>set\<close> of regions.
\<close>

record py_env =
  json_loads :: "string \<Rightarrow> error + json"
  float_of_str :: "string \<Rightarrow> real option"
  system_prompt :: string
  render_user_prompt :: "InsightRequest \<Rightarrow> string"

text \<open>\<^verbatim>\<open>str.isspace\<close> of one character, which is also the regular expression's
  \<^verbatim>\<open>\s\<close>.\<close>

definition isspace :: "char \<Rightarrow> bool" where
  "isspace c \<longleftrightarrow> (of_char c :: nat) \<in> {9, 10, 11, 12, 13, 28, 29, 30, 31, 32, 133, 160}"

definition rstrip :: "string \<Rightarrow> string" where
  "rstrip s = rev (dropWhile isspace (rev s))"

definition strip :: "string \<Rightarrow> string" where
  "strip s = rstrip (dropWhile isspace s)"

definition startswith :: "string \<Rightarrow> string \<Rightarrow> bool" where
  "startswith s p \<longleftrightarrow> take (length p) s = p"

definition endswith :: "string \<Rightarrow> string \<Rightarrow> bool" where
  "endswith s p \<longleftrightarrow> length p \<le> length s \<and> drop (length s - length p) s = p"

definition fence :: string where
  "fence = [CHR 0x60, CHR 0x60, CHR 0x60]"

text \<open>
  \<^verbatim>\<open>re.sub(r'^```(?:json)?\s*', '', s)\<close>: the pattern matches at the start only, takes
  \<^verbatim>\<open>json\<close> when it is there and then every whitespace character that follows.
\<close>

definition sub_leading_fence :: "string \<Rightarrow> string" where
  "sub_leading_fence s =
     (if startswith s fence
      then (let r = drop 3 s;
                r' = (if startswith r ''json'' then drop 4 r else r)
            in dropWhile isspace r')
      else s)"

text \<open>
  \<^verbatim>\<open>re.sub(r'\s*```$', '', s)\<close>: \<^verbatim>\<open>$\<close> matches at the end of the string and just
  before a newline that ends it; the leftmost match starts at the whitespace run before
  the closing backticks.
\<close>

definition sub_trailing_fence :: "string \<Rightarrow> string" where
  "sub_trailing_fence s =
     (if endswith s fence then rstrip (take (length s - 3) s)
      else if endswith s (fence @ [CHR 0x0A]) then rstrip (take (length s - 4) s) @ [CHR 0x0A]
      else s)"

text \<open>
  \<^verbatim>\<open>re.search(r'\{[\s\S]*\}', s)\<close>, as the engine runs it: start positions from the
  left; at an opening brace the greedy star takes the rest of the string and gives
  characters back until a closing brace ends the match.
\<close>

fun greedy_to_brace :: "string \<Rightarrow> string option" where
  "greedy_to_brace [] = None"
| "greedy_to_brace (c # cs) =
     (case greedy_to_brace cs of
        Some m \<Rightarrow> Some (c # m)
      | None \<Rightarrow> if c = CHR ''}'' then Some [c] else None)"

fun re_search_braces :: "string \<Rightarrow> string option" where
  "re_search_braces [] = None"
| "re_search_braces (c # cs) =
     (if c = CHR ''{''
      then (case greedy_to_brace cs of
              Some m \<Rightarrow> Some (c # m)
            | None \<Rightarrow> re_search_braces cs)
      else re_search_braces cs)"

text \<open>The text both parse attempts work on.\<close>

definition clean_text :: "string \<Rightarrow> string" where
  "clean_text text =
     (let cleaned = strip text in
      if startswith cleaned fence then sub_trailing_fence (sub_leading_fence cleaned)
      else cleaned)"

text \<open>
  \<^verbatim>\<open>parse_response\<close>: \<^verbatim>\<open>except json.JSONDecodeError\<close> catches that class only, so any
  other exception of the direct parse leaves the function; the second
  \<^verbatim>\<open>json.loads\<close> is returned as it is, value or exception.
\<close>

definition parse_response :: "py_env \<Rightarrow> string \<Rightarrow> error + json" where
  "parse_response E text =
     (let cleaned = clean_text text in
      case json_loads E cleaned of
        Inr v \<Rightarrow> Inr v
      | Inl e \<Rightarrow>
          if e = JSONDecodeError
          then (case re_search_braces cleaned of
                  Some m \<Rightarrow> json_loads E m
                | None \<Rightarrow> Inl ValueError)
          else Inl e)"

subsection \<open>llm_service.py: normalizing the parsed object\<close>

text \<open>\<^verbatim>\<open>dict.get(key, default)\<close> on the entries of a parsed object.\<close>

definition dict_get :: "(string \<times> json) list \<Rightarrow> string \<Rightarrow> json \<Rightarrow> json" where
  "dict_get kv k dflt = (case map_of kv k of None \<Rightarrow> dflt | Some v \<Rightarrow> v)"

text \<open>
  \<^verbatim>\<open>str.lower\<close>, character by character: the capital letters below code point 256.
  No other character of a Python string lowers to a string that holds an ASCII
  letter alone, so the comparison with \<^verbatim>\<open>low\<close>, \<^verbatim>\<open>medium\<close>, \<^verbatim>\<open>high\<close> is the same.
\<close>

definition lower_char :: "char \<Rightarrow> char" where
  "lower_char c =
     (let n = (of_char c :: nat) in
      if (65 \<le> n \<and> n \<le> 90) \<or> (192 \<le> n \<and> n \<le> 222 \<and> n \<noteq> 215)
      then char_of (n + 32) else c)"

definition lower :: "string \<Rightarrow> string" where
  "lower s = map lower_char s"

text \<open>\<^verbatim>\<open>risk_map.get(key, RiskLevel.MEDIUM)\<close>\<close>

definition risk_map_get :: "string \<Rightarrow> RiskLevel" where
  "risk_map_get k =
     (if k = ''low'' then LOW
      else if k = ''medium'' then MEDIUM
      else if k = ''high'' then HIGH
      else MEDIUM)"

text \<open>
  \<^verbatim>\<open>data.get("overall_risk_level", "Medium").lower()\<close> looked up in the map: only a
  \<^verbatim>\<open>str\<close> has \<^verbatim>\<open>lower\<close>.
\<close>

definition read_risk_level :: "(string \<times> json) list \<Rightarrow> error + RiskLevel" where
  "read_risk_level kv =
     (case dict_get kv ''overall_risk_level'' (JStr ''Medium'') of
        JStr s \<Rightarrow> Inr (risk_map_get (lower s))
      | _ \<Rightarrow> Inl AttributeError)"

text \<open>
  The builtin \<^verbatim>\<open>float\<close> on a parsed value. An int at or beyond
  \<open>2 ^ 1024 - 2 ^ 970\<close> in magnitude is too large to convert; \<^verbatim>\<open>None\<close>, a list and a
  dict are a \<^verbatim>\<open>TypeError\<close>.
\<close>

definition py_float :: "py_env \<Rightarrow> json \<Rightarrow> error + real" where
  "py_float E v =
     (case v of
        JFloat x \<Rightarrow> Inr x
      | JInt n \<Rightarrow> if 2 ^ 1024 - 2 ^ 970 \<le> \<bar>n\<bar> then Inl OverflowError else Inr (of_int n)
      | JBool b \<Rightarrow> Inr (if b then 1 else 0)
      | JStr s \<Rightarrow> (case float_of_str E s of Some x \<Rightarrow> Inr x | None \<Rightarrow> Inl ValueError)
      | _ \<Rightarrow> Inl TypeError)"

text \<open>\<^verbatim>\<open>max(0.0, min(1.0, float(data.get("confidence_score", 0.7))))\<close>\<close>

definition read_confidence :: "py_env \<Rightarrow> (string \<times> json) list \<Rightarrow> error + real" where
  "read_confidence E kv =
     (case py_float E (dict_get kv ''confidence_score'' (JFloat 0.7)) of
        Inl e \<Rightarrow> Inl e
      | Inr x \<Rightarrow> Inr (max 0 (min 1 x)))"

text \<open>
  \<^verbatim>\<open>v[:10]\<close>: a list and a string can be sliced; a number, a boolean and
  \<^verbatim>\<open>None\<close> cannot (\<^verbatim>\<open>TypeError\<close>), and neither can a dict (\<^verbatim>\<open>TypeError\<close> before
  Python 3.12, \<^verbatim>\<open>KeyError\<close> from it on; the model has the former).
\<close>

datatype sliced = SList "json list" | SStr string

definition slice10 :: "json \<Rightarrow> error + sliced" where
  "slice10 v =
     (case v of
        JArr xs \<Rightarrow> Inr (SList (take 10 xs))
      | JStr s \<Rightarrow> Inr (SStr (take 10 s))
      | _ \<Rightarrow> Inl TypeError)"

text \<open>\<^verbatim>\<open>data.get(key, [default])[:10]\<close>\<close>

definition read_list :: "(string \<times> json) list \<Rightarrow> string \<Rightarrow> string \<Rightarrow> error + sliced" where
  "read_list kv k dflt = slice10 (dict_get kv k (JArr [JStr dflt]))"

text \<open>pydantic's reading of a \<^verbatim>\<open>List[str]\<close> field: a list whose items are all strings.\<close>

fun str_items :: "json list \<Rightarrow> string list option" where
  "str_items [] = Some []"
| "str_items (JStr s # xs) = (case str_items xs of Some ys \<Rightarrow> Some (s # ys) | None \<Rightarrow> None)"
| "str_items (_ # xs) = None"

fun as_str_list :: "sliced \<Rightarrow> string list option" where
  "as_str_list (SList xs) = str_items xs"
| "as_str_list (SStr s) = None"

text \<open>
  \<^verbatim>\<open>validate_response\<close>. The statements run in the source's order, so the first one
  that raises decides the exception; a value without \<^verbatim>\<open>get\<close> (anything but a dict)
  raises at the first statement.
\<close>

definition validate_response :: "py_env \<Rightarrow> json \<Rightarrow> InsightRequest \<Rightarrow> error + InsightResponse" where
  "validate_response E data request =
     (case data of
        JObj kv \<Rightarrow>
          (case read_risk_level kv of Inl e \<Rightarrow> Inl e | Inr risk_level \<Rightarrow>
          (case read_confidence E kv of Inl e \<Rightarrow> Inl e | Inr confidence \<Rightarrow>
          (case read_list kv ''key_risks'' ''No risks identified'' of
             Inl e \<Rightarrow> Inl e | Inr risks \<Rightarrow>
          (case read_list kv ''negotiation_levers'' ''Review contracts'' of
             Inl e \<Rightarrow> Inl e | Inr levers \<Rightarrow>
          (case read_list kv ''recommended_actions_next_90_days'' ''Conduct review'' of
             Inl e \<Rightarrow> Inl e | Inr actions \<Rightarrow>
          (case (as_str_list risks, as_str_list levers, as_str_list actions) of
             (Some rs, Some ls, Some as) \<Rightarrow>
               InsightResponse_init (category request) risk_level rs ls as (round2 confidence)
           | _ \<Rightarrow> Inl ValidationError))))))
      | _ \<Rightarrow> Inl AttributeError)"

subsection \<open>llm_service.py: the external path\<close>

text \<open>The exchange with the endpoint, \<^verbatim>\<open>_call_api\<close>, as a function of the two prompts.\<close>

record GroqService =
  call_api :: "string \<Rightarrow> string \<Rightarrow> error + string"

text \<open>
  \<^verbatim>\<open>build_user_prompt\<close>: the share of the first supplier divides by the total spend
  before any text is rendered.
\<close>

definition build_user_prompt :: "py_env \<Rightarrow> InsightRequest \<Rightarrow> error + string" where
  "build_user_prompt E request =
     (if suppliers request \<noteq> [] \<and> total_spend request = Fin 0 then Inl ZeroDivisionError
      else Inr (render_user_prompt E request))"

text \<open>\<^verbatim>\<open>GroqService.generate_insights\<close>\<close>

definition GroqService_generate_insights ::
  "py_env \<Rightarrow> GroqService \<Rightarrow> InsightRequest \<Rightarrow> error + InsightResponse" where
  "GroqService_generate_insights E svc request =
     (case build_user_prompt E request of Inl e \<Rightarrow> Inl e | Inr user_prompt \<Rightarrow>
     (case call_api svc (system_prompt E) user_prompt of Inl e \<Rightarrow> Inl e | Inr raw \<Rightarrow>
     (case parse_response E raw of Inl e \<Rightarrow> Inl e | Inr data \<Rightarrow>
     (case validate_response E data request of Inl e \<Rightarrow> Inl e | Inr response \<Rightarrow>
        Inr (response\<lparr>confidence_score := min 0.95 (confidence_score response + 0.2)\<rparr>)))))"

subsection \<open>main.py: the orchestrator\<close>

text \<open>
  \<^verbatim>\<open>generate_insights\<close>: the service when one is configured, else the fallback; any
  \<^verbatim>\<open>Exception\<close> of that attempt runs the fallback, and only a failure of the fallback
  itself becomes the HTTP 500.
\<close>

definition generate_insights ::
  "py_env \<Rightarrow> GroqService option \<Rightarrow> InsightRequest \<Rightarrow> error + InsightResponse" where
  "generate_insights E llm_service request =
     (case (case llm_service of
              Some svc \<Rightarrow> GroqService_generate_insights E svc request
            | None \<Rightarrow> FallbackInsightGenerator_generate request) of
        Inr response \<Rightarrow> Inr response
      | Inl e \<Rightarrow>
          (case FallbackInsightGenerator_generate request of
             Inr response \<Rightarrow> Inr response
           | Inl e' \<Rightarrow> Inl (HTTPException 500)))"

subsection \<open>The specification's side of the parser and normalizer claims\<close>

text \<open>
  The specification's reading of the brace search: the text from the first opening
  brace to the last closing brace after it. \<open>upto_last_brace s\<close> is \<open>s\<close> up to and
  including its last closing brace (empty when it has none).
\<close>

definition upto_last_brace :: "string \<Rightarrow> string" where
  "upto_last_brace s = rev (dropWhile (\<lambda>c. c \<noteq> CHR ''}'') (rev s))"

definition brace_span :: "string \<Rightarrow> string option" where
  "brace_span s =
     (let a = dropWhile (\<lambda>c. c \<noteq> CHR ''{'') s in
      if a = [] \<or> upto_last_brace (tl a) = [] then None
      else Some (CHR ''{'' # upto_last_brace (tl a)))"

text \<open>
  The shapes under which \<^verbatim>\<open>validate_response\<close> returns. A confidence value is
  coercible when the builtin \<^verbatim>\<open>float\<close> accepts it: a float, a boolean, an int within
  the float range, a string that reads as a number.
\<close>

definition coercible :: "py_env \<Rightarrow> json \<Rightarrow> bool" where
  "coercible E v =
     (case v of
        JFloat x \<Rightarrow> True
      | JInt n \<Rightarrow> \<bar>n\<bar> < 2 ^ 1024 - 2 ^ 970
      | JBool b \<Rightarrow> True
      | JStr s \<Rightarrow> float_of_str E s \<noteq> None
      | _ \<Rightarrow> False)"

text \<open>
  A list field is absent, or a non-empty list whose first 10 entries are all strings.
\<close>

definition list_field_ok :: "(string \<times> json) list \<Rightarrow> string \<Rightarrow> bool" where
  "list_field_ok kv k =
     (case map_of kv k of
        None \<Rightarrow> True
      | Some (JArr xs) \<Rightarrow> xs \<noteq> [] \<and> str_items (take 10 xs) \<noteq> None
      | Some _ \<Rightarrow> False)"

text \<open>
  Every field of the parsed object is absent or of the shape the code can use.
\<close>

definition well_shaped :: "py_env \<Rightarrow> (string \<times> json) list \<Rightarrow> bool" where
  "well_shaped E kv \<longleftrightarrow>
     (case map_of kv ''overall_risk_level'' of
        None \<Rightarrow> True | Some (JStr s) \<Rightarrow> True | Some _ \<Rightarrow> False)
     \<and> (case map_of kv ''confidence_score'' of None \<Rightarrow> True | Some v \<Rightarrow> coercible E v)
     \<and> list_field_ok kv ''key_risks''
     \<and> list_field_ok kv ''negotiation_levers''
     \<and> list_field_ok kv ''recommended_actions_next_90_days''"

subsection \<open>Sample inputs\<close>

definition ex_techsource :: Supplier where
  "ex_techsource = \<lparr>supplier_name = ''TechSource'', annual_spend_usd = 4200000,
     on_time_delivery_pct = 92, contract_expiry_months = 6, single_source_dependency = True,
     region = ''NA''\<rparr>"

definition ex_globalcomp :: Supplier where
  "ex_globalcomp = \<lparr>supplier_name = ''GlobalComp'', annual_spend_usd = 1800000,
     on_time_delivery_pct = 78.5, contract_expiry_months = 2, single_source_dependency = False,
     region = ''EU''\<rparr>"

definition ex_nextgen :: Supplier where
  "ex_nextgen = \<lparr>supplier_name = ''NextGen'', annual_spend_usd = 1000000,
     on_time_delivery_pct = 97, contract_expiry_months = 12, single_source_dependency = False,
     region = ''APAC''\<rparr>"

definition ex_steady :: Supplier where
  "ex_steady = \<lparr>supplier_name = ''Steady'', annual_spend_usd = 500000,
     on_time_delivery_pct = 88, contract_expiry_months = 12, single_source_dependency = False,
     region = ''EU''\<rparr>"

definition ex_request :: InsightRequest where
  "ex_request = \<lparr>category = ''IT Hardware'',
     suppliers = [ex_techsource, ex_globalcomp, ex_nextgen]\<rparr>"

definition ex_request_mixed :: InsightRequest where
  "ex_request_mixed = \<lparr>category = ''Logistics'', suppliers = [ex_steady, ex_globalcomp]\<rparr>"









text \<open>
  A stand-in for the library: a parser that knows two texts, a float reader that knows
  one.
\<close>

definition ex_env :: py_env where
  "ex_env = \<lparr>json_loads = (\<lambda>s. if s = ''{}'' then Inr (JObj [])
                              else if s = ''[]'' then Inr (JArr [])
                              else Inl JSONDecodeError),
             float_of_str = (\<lambda>s. if s = ''0.5'' then Some 0.5 else None),
             system_prompt = ''system'',
             render_user_prompt = (\<lambda>req. ''Analyze '' @ category req)\<rparr>"

text \<open>
  A text of 100000 opening brackets followed by an empty object, on which
  \<^verbatim>\<open>json.loads\<close> raises \<^verbatim>\<open>RecursionError\<close>, and a stand-in for the library that knows
  it.
\<close>

definition ex_nested_text :: string where
  "ex_nested_text = replicate 100000 (CHR ''['') @ ''{}''"

definition ex_env_nested :: py_env where
  "ex_env_nested = \<lparr>json_loads = (\<lambda>s. if s = ex_nested_text then Inl RecursionError
                                     else if s = ''{}'' then Inr (JObj [])
                                     else Inl JSONDecodeError),
             float_of_str = (\<lambda>s. None),
             system_prompt = ''system'',
             render_user_prompt = (\<lambda>req. ''Analyze '' @ category req)\<rparr>"

text \<open>
  An object with a confidence of 0.9, the stand-in that reads it, and an endpoint that
  answers with it.
\<close>

definition ex_confident_text :: string where
  "ex_confident_text = ''{'' @ [CHR 0x22] @ ''confidence_score'' @ [CHR 0x22] @ '': 0.9}''"

definition ex_env_confident :: py_env where
  "ex_env_confident = \<lparr>json_loads = (\<lambda>s. if s = ex_confident_text
                                        then Inr (JObj [(''confidence_score'', JFloat 0.9)])
                                        else Inl JSONDecodeError),
             float_of_str = (\<lambda>s. None),
             system_prompt = ''system'',
             render_user_prompt = (\<lambda>req. ''Analyze '' @ category req)\<rparr>"

text \<open>
  A parsed object with an upper-case level, a three-decimal confidence, twelve risks,
  one lever and no actions; and two whose risk level is not a string.
\<close>

definition ex_fields :: "(string \<times> json) list" where
  "ex_fields =
     [(''overall_risk_level'', JStr ''HIGH''),
      (''confidence_score'', JFloat 0.876),
      (''key_risks'', JArr (map JStr [''r1'', ''r2'', ''r3'', ''r4'', ''r5'', ''r6'', ''r7'',
                                     ''r8'', ''r9'', ''r10'', ''r11'', ''r12''])),
      (''negotiation_levers'', JArr [JStr ''Volume''])]"

definition ex_fields_null_level :: "(string \<times> json) list" where
  "ex_fields_null_level = [(''overall_risk_level'', JNull)]"

definition ex_fields_numeric_level :: "(string \<times> json) list" where
  "ex_fields_numeric_level = [(''overall_risk_level'', JInt 5)]"

text \<open>
  Three endpoints: one answers with an empty object, one with text that is not JSON, one
  with the object of confidence 0.9.
\<close>

definition ex_service :: GroqService where
  "ex_service = \<lparr>call_api = (\<lambda>sys usr. Inr ''{}'')\<rparr>"

definition ex_service_garbled :: GroqService where
  "ex_service_garbled = \<lparr>call_api = (\<lambda>sys usr. Inr ''no braces'')\<rparr>"

definition ex_service_confident :: GroqService where
  "ex_service_confident = \<lparr>call_api = (\<lambda>sys usr. Inr ex_confident_text)\<rparr>"

section \<open>Properties of the binary64 arithmetic\<close>

lemma round_half_even_bounds:
  assumes "of_int a \<le> x" and "x \<le> of_int b"
  shows "a \<le> round_half_even x \<and> round_half_even x \<le> b"
proof -
  have f1: "a \<le> \<lfloor>x\<rfloor>" using assms(1) by (simp add: le_floor_iff)
  have f2: "\<lfloor>x\<rfloor> \<le> b" using assms(2) by (simp add: floor_le_iff)
  have up: "x - of_int \<lfloor>x\<rfloor> \<noteq> 0 \<Longrightarrow> \<lfloor>x\<rfloor> + 1 \<le> b"
  proof -
    assume "x - of_int \<lfloor>x\<rfloor> \<noteq> 0"
    then have "of_int \<lfloor>x\<rfloor> < x" using of_int_floor_le [of x] by linarith
    with assms(2) have "of_int \<lfloor>x\<rfloor> < (of_int b :: real)" by linarith
    then have "\<lfloor>x\<rfloor> < b" by simp
    then show ?thesis by simp
  qed
  show ?thesis
    unfolding round_half_even_def Let_def
    using f1 f2 up by (auto split: if_splits)
qed

lemma pow2_powr: "pow2 e = 2 powr (of_int e)"
proof (cases "0 \<le> e")
  case True
  then have "2 powr (of_int e) = (2::real) powr (real (nat e))" by simp
  also have "\<dots> = 2 ^ nat e" by (rule powr_realpow) simp
  finally show ?thesis using True by (simp add: pow2_def)
next
  case False
  then have "(2::real) powr (of_int e) = 2 powr (- real (nat (- e)))" by simp
  also have "\<dots> = inverse (2 powr (real (nat (- e))))" by (rule powr_minus)
  also have "2 powr (real (nat (- e))) = (2::real) ^ nat (- e)" by (rule powr_realpow) simp
  finally show ?thesis using False by (simp add: pow2_def inverse_eq_divide)
qed

lemma pow2_pos [simp]: "0 < pow2 e"
  by (simp add: pow2_def)

lemma pow2_nonzero [simp]: "pow2 e \<noteq> 0"
  using pow2_pos [of e] by linarith

lemma pow2_mono: "a \<le> b \<Longrightarrow> pow2 a \<le> pow2 b"
  unfolding pow2_powr by (simp add: powr_mono)

lemma pow2_add: "pow2 (a + b) = pow2 a * pow2 b"
  unfolding pow2_powr by (simp add: powr_add)

lemma pow2_of_nat: "pow2 (int n) = 2 ^ n"
  by (simp add: pow2_def)

lemma round_half_even_of_int [simp]: "round_half_even (of_int m) = m"
  by (simp add: round_half_even_def)

text \<open>The exponent of a non-zero real, given its binade.\<close>

lemma floor_log2_eq:
  assumes "pow2 k \<le> \<bar>x\<bar>" and "\<bar>x\<bar> < pow2 (k + 1)"
  shows "\<lfloor>log 2 \<bar>x\<bar>\<rfloor> = k"
proof -
  have "0 < \<bar>x\<bar>" using assms(1) pow2_pos [of k] by linarith
  then show ?thesis
    using assms unfolding pow2_powr
    by (subst floor_log_eq_powr_iff) simp_all
qed

lemma rnd64_at:
  assumes "pow2 k \<le> \<bar>x\<bar>" and "\<bar>x\<bar> < pow2 (k + 1)" and "- 1022 \<le> k"
  shows "rnd64 x = of_int (round_half_even (x / pow2 (k - 52))) * pow2 (k - 52)"
proof -
  have "x \<noteq> 0"
  proof
    assume "x = 0"
    with assms(1) have "pow2 k \<le> 0" by simp
    with pow2_pos [of k] show False by linarith
  qed
  moreover have "max (\<lfloor>log 2 \<bar>x\<bar>\<rfloor> - 52) (- 1074) = k - 52"
    unfolding floor_log2_eq [OF assms(1,2)] using assms(3) by simp
  ultimately show ?thesis
    by (simp add: rnd64_def Let_def)
qed

lemma rnd64_pos:
  assumes "pow2 (- 1074) \<le> x"
  shows "pow2 (- 1074) \<le> rnd64 x"
proof -
  have x: "0 < x" using assms pow2_pos [of "- 1074"] by linarith
  define e where "e = max (\<lfloor>log 2 \<bar>x\<bar>\<rfloor> - 52) (- 1074)"
  have e: "- 1074 \<le> e" by (simp add: e_def)
  have le: "pow2 e \<le> x"
  proof (cases "\<lfloor>log 2 \<bar>x\<bar>\<rfloor> - 52 \<le> - 1074")
    case True
    then have "e = - 1074" by (simp add: e_def)
    with assms show ?thesis by simp
  next
    case False
    then have "e = \<lfloor>log 2 \<bar>x\<bar>\<rfloor> - 52" by (simp add: e_def)
    then have "pow2 e \<le> pow2 \<lfloor>log 2 \<bar>x\<bar>\<rfloor>" by (simp add: pow2_mono)
    also have "\<dots> \<le> \<bar>x\<bar>"
      using x floor_log_eq_powr_iff [of "\<bar>x\<bar>" 2 "\<lfloor>log 2 \<bar>x\<bar>\<rfloor>"] unfolding pow2_powr by simp
    finally show ?thesis using x by simp
  qed
  then have "of_int 1 \<le> x / pow2 e" by (simp add: le_divide_eq)
  then have "1 \<le> round_half_even (x / pow2 e)"
    using round_half_even_bounds [of 1 "x / pow2 e" "\<lceil>x / pow2 e\<rceil>"] by (simp add: le_of_int_ceiling)
  then have "(1::real) \<le> of_int (round_half_even (x / pow2 e))" by simp
  then have "pow2 e \<le> of_int (round_half_even (x / pow2 e)) * pow2 e"
    by (simp add: le_divide_eq [symmetric])
  moreover have "pow2 (- 1074) \<le> pow2 e" using e by (rule pow2_mono)
  moreover have "rnd64 x = of_int (round_half_even (x / pow2 e)) * pow2 e"
    using x by (simp add: rnd64_def e_def Let_def)
  ultimately show ?thesis by linarith
qed

lemma is_double_pos:
  assumes "is_double x" and "0 < x"
  shows "pow2 (- 1074) \<le> x"
proof -
  define e where "e = max (\<lfloor>log 2 \<bar>x\<bar>\<rfloor> - 52) (- 1074)"
  define m where "m = round_half_even (x / pow2 e)"
  have x: "x = of_int m * pow2 e"
    using assms by (simp add: is_double_def rnd64_def e_def m_def Let_def split: if_splits)
  with assms(2) have "0 < of_int m * pow2 e" by simp
  then have "0 < m"
    using pow2_pos [of e] by (simp add: zero_less_mult_iff)
  then have "(1::real) \<le> of_int m" by simp
  then have "pow2 e \<le> of_int m * pow2 e" by (simp add: le_divide_eq [symmetric])
  moreover have "pow2 (- 1074) \<le> pow2 e" by (rule pow2_mono) (simp add: e_def)
  ultimately show ?thesis using x by linarith
qed

lemma rnd64_exact:
  assumes x: "x = of_int m * pow2 e" and m: "\<bar>m\<bar> < 2 ^ 53" and e: "- 1074 \<le> e"
  shows "rnd64 x = x"
proof (cases "m = 0")
  case True
  with x show ?thesis by (simp add: rnd64_def)
next
  case False
  have "pow2 e \<noteq> 0" using pow2_pos [of e] by linarith
  with False have x0: "x \<noteq> 0" using x by simp
  define E where "E = max (\<lfloor>log 2 \<bar>x\<bar>\<rfloor> - 52) (- 1074)"
  have ax: "\<bar>x\<bar> = of_int \<bar>m\<bar> * pow2 e"
  proof -
    have "\<bar>pow2 e\<bar> = pow2 e" using pow2_pos [of e] by linarith
    then show ?thesis unfolding x by (simp add: abs_mult)
  qed
  have "of_int \<bar>m\<bar> < (2::real) ^ 53"
    using m by (metis of_int_less_numeral_power_cancel_iff)
  then have "\<bar>x\<bar> < 2 ^ 53 * pow2 e"
    unfolding ax using pow2_pos [of e] by simp
  also have "\<dots> = pow2 (53 + e)"
    using pow2_of_nat [of 53] by (simp add: pow2_add)
  finally have lt: "\<bar>x\<bar> < 2 powr (of_int (53 + e))"
    by (simp add: pow2_powr)
  have "log 2 \<bar>x\<bar> < of_int (53 + e)"
    using lt x0 by (simp add: log_less_iff)
  then have "\<lfloor>log 2 \<bar>x\<bar>\<rfloor> < 53 + e"
    by (simp add: floor_less_iff)
  then have Ee: "E \<le> e"
    using e by (simp add: E_def)
  define d where "d = nat (e - E)"
  have "pow2 e = pow2 (E + int d)"
    using Ee by (simp add: d_def)
  also have "\<dots> = pow2 E * 2 ^ d"
    by (simp add: pow2_add pow2_of_nat)
  finally have pe: "pow2 e = pow2 E * 2 ^ d" .
  have "x / pow2 E = of_int (m * 2 ^ d)"
    unfolding x pe using pow2_pos [of E] by simp
  then have "round_half_even (x / pow2 E) = m * 2 ^ d"
    by (simp only: round_half_even_of_int)
  then have "rnd64 x = of_int (m * 2 ^ d) * pow2 E"
    using x0 by (simp add: rnd64_def E_def Let_def)
  also have "\<dots> = x"
    unfolding x pe by simp
  finally show ?thesis .
qed

lemma rnd64_of_int: "\<bar>n\<bar> < 2 ^ 53 \<Longrightarrow> rnd64 (of_int n) = of_int n"
  using rnd64_exact [of "of_int n" n 0] by (simp add: pow2_def)

lemma is_double_of_int: "\<bar>n\<bar> < 2 ^ 53 \<Longrightarrow> is_double (of_int n)"
proof -
  assume n: "\<bar>n\<bar> < 2 ^ 53"
  then have "\<bar>n\<bar> < 2 ^ 1024"
    by (rule less_trans) simp
  then have "\<bar>real_of_int n\<bar> < 2 ^ 1024"
    by (metis of_int_abs of_int_less_numeral_power_cancel_iff)
  with n show ?thesis
    by (simp add: is_double_def rnd64_of_int)
qed


lemma fl_of_int: "\<bar>n\<bar> < 2 ^ 53 \<Longrightarrow> fl (of_int n) = Fin (of_int n)"
proof -
  assume n: "\<bar>n\<bar> < 2 ^ 53"
  then have "\<bar>n\<bar> < 2 ^ 1024 - 2 ^ 970"
    by (rule less_trans) simp
  then have "real_of_int \<bar>n\<bar> < of_int (2 ^ 1024 - 2 ^ 970)"
    by (simp only: of_int_less_iff)
  then have "\<bar>real_of_int n\<bar> < 2 ^ 1024 - 2 ^ 970"
    by simp
  with n show ?thesis
    by (simp add: fl_def rnd64_of_int)
qed

lemma fl_numeral: "(numeral k :: int) < 2 ^ 53 \<Longrightarrow> fl (numeral k) = Fin (numeral k)"
  using fl_of_int [of "numeral k"] by simp

lemma fl_zero [simp]: "fl 0 = Fin 0"
  by (simp add: fl_def rnd64_def)

lemma fl_at:
  assumes "pow2 k \<le> \<bar>x\<bar>" and "\<bar>x\<bar> < pow2 (k + 1)" and "- 1022 \<le> k" and "k \<le> 1022"
  shows "fl x = Fin (of_int (round_half_even (x / pow2 (k - 52))) * pow2 (k - 52))"
proof -
  have "pow2 (k + 1) \<le> pow2 1023"
    using assms(4) by (intro pow2_mono) simp
  also have "\<dots> = 2 ^ 1023"
    by (simp add: pow2_def)
  also have "\<dots> < (2::real) ^ 1024 - 2 ^ 970"
    by simp
  finally have "\<bar>x\<bar> < 2 ^ 1024 - 2 ^ 970"
    using assms(2) by linarith
  then show ?thesis
    by (simp add: fl_def rnd64_at [OF assms(1,2,3)])
qed


text \<open>
  Adding a positive binary64 value to a non-negative float gives a positive float: the
  smallest positive value is \<^verbatim>\<open>2**-1074\<close> and rounding never goes below it.
\<close>

lemma fadd_positive:
  assumes "acc = PInf \<or> (\<exists>a. acc = Fin a \<and> 0 \<le> a)" and "is_double x" and "0 < x"
  shows "fadd acc (Fin x) = PInf \<or> (\<exists>a. fadd acc (Fin x) = Fin a \<and> pow2 (- 1074) \<le> a)"
proof -
  from assms(1) show ?thesis
  proof
    assume "acc = PInf"
    then show ?thesis by simp
  next
    assume "\<exists>a. acc = Fin a \<and> 0 \<le> a"
    then obtain a where a: "acc = Fin a" "0 \<le> a" by blast
    have x: "pow2 (- 1074) \<le> x"
      using assms(2,3) by (rule is_double_pos)
    with a(2) have s: "pow2 (- 1074) \<le> a + x" by linarith
    then have p: "0 < a + x"
      using pow2_pos [of "- 1074"] by linarith
    show ?thesis
    proof (cases "2 ^ 1024 - 2 ^ 970 \<le> \<bar>a + x\<bar>")
      case True
      with p show ?thesis by (simp add: a fl_def)
    next
      case False
      then have "fadd acc (Fin x) = Fin (rnd64 (a + x))"
        by (simp add: a fl_def)
      with rnd64_pos [OF s] show ?thesis by blast
    qed
  qed
qed

lemma foldl_fadd_positive:
  assumes "acc = PInf \<or> (\<exists>a. acc = Fin a \<and> pow2 (- 1074) \<le> a)"
    and "list_all (\<lambda>x. is_double x \<and> 0 < x) xs"
  shows "foldl fadd acc (map Fin xs) = PInf
       \<or> (\<exists>a. foldl fadd acc (map Fin xs) = Fin a \<and> pow2 (- 1074) \<le> a)"
  using assms
proof (induction xs arbitrary: acc)
  case Nil
  then show ?case by simp
next
  case (Cons x xs)
  have "acc = PInf \<or> (\<exists>a. acc = Fin a \<and> 0 \<le> a)"
  proof (cases "acc = PInf")
    case True
    then show ?thesis by simp
  next
    case False
    with Cons.prems(1) obtain a where a: "acc = Fin a" "pow2 (- 1074) \<le> a" by blast
    then have "0 \<le> a"
      using pow2_pos [of "- 1074"] by linarith
    with a(1) show ?thesis by blast
  qed
  moreover from Cons.prems(2) have "is_double x" "0 < x" by simp_all
  ultimately have "fadd acc (Fin x) = PInf
       \<or> (\<exists>a. fadd acc (Fin x) = Fin a \<and> pow2 (- 1074) \<le> a)"
    by (rule fadd_positive)
  moreover from Cons.prems(2) have "list_all (\<lambda>x. is_double x \<and> 0 < x) xs" by simp
  ultimately show ?case
    using Cons.IH [of "fadd acc (Fin x)"] by simp
qed

section \<open>Properties of the fallback rule engine\<close>

text \<open>The running sum of the specification is the sum the code computes.\<close>

lemma running_total_foldl: "running_total acc xs = foldl fadd acc (map Fin xs)"
  by (induction xs arbitrary: acc) simp_all

lemma total_spend_rounded: "total_spend req = rounded_total req"
  by (simp add: total_spend_def rounded_total_def running_total_foldl comp_def)

text \<open>A valid request has a positive or infinite total spend, so the division never
  raises.\<close>

lemma total_spend_positive:
  assumes "valid_request req"
  shows "total_spend req = PInf \<or> (\<exists>a. total_spend req = Fin a \<and> pow2 (- 1074) \<le> a)"
proof -
  from assms obtain s ss where ss: "suppliers req = s # ss"
    unfolding valid_request_def by (cases "suppliers req") auto
  from assms have all: "list_all (\<lambda>x. is_double x \<and> 0 < x) (map annual_spend_usd (s # ss))"
    unfolding valid_request_def ss by (simp add: list_all_iff valid_supplier_def)
  then have "is_double (annual_spend_usd s)" "0 < annual_spend_usd s"
    by simp_all
  then have "fadd (Fin 0) (Fin (annual_spend_usd s)) = PInf
      \<or> (\<exists>a. fadd (Fin 0) (Fin (annual_spend_usd s)) = Fin a \<and> pow2 (- 1074) \<le> a)"
    by (intro fadd_positive) simp_all
  moreover from all have "list_all (\<lambda>x. is_double x \<and> 0 < x) (map annual_spend_usd ss)"
    by simp
  ultimately have
    "foldl fadd (fadd (Fin 0) (Fin (annual_spend_usd s))) (map Fin (map annual_spend_usd ss)) = PInf
     \<or> (\<exists>a. foldl fadd (fadd (Fin 0) (Fin (annual_spend_usd s)))
               (map Fin (map annual_spend_usd ss)) = Fin a \<and> pow2 (- 1074) \<le> a)"
    by (rule foldl_fadd_positive)
  then show ?thesis
    by (simp add: total_spend_def ss comp_def)
qed

lemma total_spend_nonzero:
  assumes "valid_request req"
  shows "total_spend req \<noteq> Fin 0"
proof
  assume "total_spend req = Fin 0"
  with total_spend_positive [OF assms] have "pow2 (- 1074) \<le> 0"
    by simp
  with pow2_pos [of "- 1074"] show False
    by linarith
qed

lemma fallback_step_appends:
  "fallback_step (total_spend req) (rs, ls, as) s =
     (rs @ supplier_risks req s, ls @ supplier_levers req s, as @ supplier_actions s)"
  by (simp add: fallback_step_def supplier_risks_def supplier_levers_def supplier_actions_def
      spend_share_def rounded_ratio_def total_spend_rounded Let_def)

text \<open>The loop collects the per-supplier contributions in supplier order.\<close>

lemma fallback_loop_collects:
  "foldl (fallback_step (total_spend req)) (rs, ls, as) ss =
     (rs @ concat (map (supplier_risks req) ss),
      ls @ concat (map (supplier_levers req) ss),
      as @ concat (map supplier_actions ss))"
  by (induction ss arbitrary: rs ls as) (simp_all add: fallback_step_appends)

lemma first5_or_length: "1 \<le> length (first5_or xs d) \<and> length (first5_or xs d) \<le> 5"
  by (cases xs) (simp_all add: first5_or_def)

lemma first5_or_eq: "first5_or xs d = (if xs = [] then [d] else take 5 xs)"
  by (cases xs) (simp_all add: first5_or_def)

lemma first5_or_length10: "1 \<le> length (first5_or xs d) \<and> length (first5_or xs d) \<le> 10"
  using first5_or_length [of xs d] by linarith

lemma InsightResponse_init_fallback:
  "InsightResponse_init c l (first5_or xs d) (first5_or ys e) (first5_or zs f) 0.65 =
     Inr \<lparr>resp_category = c, overall_risk_level = l, key_risks = first5_or xs d,
          negotiation_levers = first5_or ys e,
          recommended_actions_next_90_days = first5_or zs f, confidence_score = 0.65\<rparr>"
  using first5_or_length10 [of xs d] first5_or_length10 [of ys e] first5_or_length10 [of zs f]
  by (simp add: InsightResponse_init_def)

text \<open>The fallback returns, with this result, whenever the division does not raise.\<close>

lemma fallback_returns:
  assumes "suppliers req = [] \<or> total_spend req \<noteq> Fin 0"
  shows "FallbackInsightGenerator_generate req =
     Inr \<lparr>resp_category = category req,
          overall_risk_level =
            (if high_risk (total_spend req) (suppliers req) then HIGH
             else if med_risk (suppliers req) then MEDIUM else LOW),
          key_risks = first5_or (collected_risks req) ''No critical risks identified'',
          negotiation_levers =
            first5_or (collected_levers req) ''Review contracts for opportunities'',
          recommended_actions_next_90_days =
            first5_or (collected_actions req) ''Quarterly supplier review'',
          confidence_score = 0.65\<rparr>"
proof -
  have "\<not> (suppliers req \<noteq> [] \<and> total_spend req = Fin 0)"
    using assms by blast
  then show ?thesis
    unfolding FallbackInsightGenerator_generate_def Let_def fallback_loop_collects
      collected_risks_def collected_levers_def collected_actions_def
    by (simp only: if_False prod.case append_Nil InsightResponse_init_fallback)
qed

lemma fallback_returns_valid:
  "valid_request req \<Longrightarrow> suppliers req = [] \<or> total_spend req \<noteq> Fin 0"
  using total_spend_nonzero [of req] by simp

text \<open>The three generators of the code are the specification's High triggers.\<close>

lemma high_risk_spec:
  "high_risk (total_spend req) (suppliers req) = list_ex (triggers_high req) (suppliers req)"
  unfolding high_risk_def list_ex_iff triggers_high_def rounded_ratio_def total_spend_rounded
  by auto


text \<open>The sample requests: their validity, their totals and their rounded ratios.\<close>

lemma is_double_numeral: "(numeral k :: int) < 2 ^ 53 \<Longrightarrow> is_double (numeral k)"
  using is_double_of_int [of "numeral k"] by simp

lemma valid_ex_request: "valid_request ex_request"
  by (simp add: valid_request_def valid_supplier_def ex_request_def ex_techsource_def
      ex_globalcomp_def ex_nextgen_def is_double_numeral)

lemma valid_ex_request_mixed: "valid_request ex_request_mixed"
  by (simp add: valid_request_def valid_supplier_def ex_request_mixed_def ex_steady_def
      ex_globalcomp_def is_double_numeral)








lemma rounded_total_ex_request: "rounded_total ex_request = Fin 7000000"
  by (simp add: rounded_total_def ex_request_def ex_techsource_def ex_globalcomp_def
      ex_nextgen_def fl_numeral)







text \<open>3/5 rounds to a value above that of \<^verbatim>\<open>0.4\<close>, 1/10 to one below, and
  2000000000000001/5000000000000002, which is above 2/5, to that of \<^verbatim>\<open>0.4\<close> itself.\<close>

lemma fl_three_fifths: "fl (3 / 5) = Fin (5404319552844595 / 9007199254740992)"
proof -
  have "fl (3 / 5) = Fin (of_int (round_half_even ((3 / 5) / pow2 (- 1 - 52))) * pow2 (- 1 - 52))"
    by (rule fl_at) (simp_all add: pow2_def)
  then show ?thesis
    by (simp add: pow2_def round_half_even_def)
qed



lemma suppliers_ex_request: "suppliers ex_request = [ex_techsource, ex_globalcomp, ex_nextgen]"
  by (simp add: ex_request_def)

lemma suppliers_ex_request_mixed: "suppliers ex_request_mixed = [ex_steady, ex_globalcomp]"
  by (simp add: ex_request_mixed_def)
















text \<open>The shares of the three-supplier request, as the code computes them.\<close>

lemma fl_21_5: "fl (21 / 5) = Fin (4728779608739021 / 1125899906842624)"
proof -
  have "fl (21 / 5) = Fin (of_int (round_half_even ((21 / 5) / pow2 (2 - 52))) * pow2 (2 - 52))"
    by (rule fl_at) (simp_all add: pow2_def)
  then show ?thesis
    by (simp add: pow2_def round_half_even_def)
qed

lemma fl_pct_three_fifths: "fl (5404319552844595 / 9007199254740992 * 100) = Fin 60"
proof -
  have "fl (5404319552844595 / 9007199254740992 * 100) =
      Fin (of_int (round_half_even ((5404319552844595 / 9007199254740992 * 100) / pow2 (5 - 52)))
           * pow2 (5 - 52))"
    by (rule fl_at) (simp_all add: pow2_def)
  then show ?thesis
    by (simp add: pow2_def round_half_even_def)
qed

lemma fl_9_35: "fl (9 / 35) = Fin (289517118902389 / 1125899906842624)"
proof -
  have "fl (9 / 35) = Fin (of_int (round_half_even ((9 / 35) / pow2 (- 2 - 52))) * pow2 (- 2 - 52))"
    by (rule fl_at) (simp_all add: pow2_def)
  then show ?thesis
    by (simp add: pow2_def round_half_even_def)
qed

lemma fl_pct_9_35:
  "fl (289517118902389 / 1125899906842624 * 100) = Fin (7237927972559725 / 281474976710656)"
proof -
  have "fl (289517118902389 / 1125899906842624 * 100) =
      Fin (of_int (round_half_even ((289517118902389 / 1125899906842624 * 100) / pow2 (4 - 52)))
           * pow2 (4 - 52))"
    by (rule fl_at) (simp_all add: pow2_def)
  then show ?thesis
    by (simp add: pow2_def round_half_even_def)
qed

lemma fl_1_7: "fl (1 / 7) = Fin (2573485501354569 / 18014398509481984)"
proof -
  have "fl (1 / 7) = Fin (of_int (round_half_even ((1 / 7) / pow2 (- 3 - 52))) * pow2 (- 3 - 52))"
    by (rule fl_at) (simp_all add: pow2_def)
  then show ?thesis
    by (simp add: pow2_def round_half_even_def)
qed

lemma fl_pct_1_7:
  "fl (2573485501354569 / 18014398509481984 * 100) = Fin (2010535547933257 / 140737488355328)"
proof -
  have "fl (2573485501354569 / 18014398509481984 * 100) =
      Fin (of_int (round_half_even ((2573485501354569 / 18014398509481984 * 100) / pow2 (3 - 52)))
           * pow2 (3 - 52))"
    by (rule fl_at) (simp_all add: pow2_def)
  then show ?thesis
    by (simp add: pow2_def round_half_even_def)
qed

lemma spend_share_ex_techsource: "spend_share ex_request ex_techsource = Fin 60"
  by (simp add: spend_share_def rounded_ratio_def rounded_total_ex_request ex_techsource_def
      fl_three_fifths fl_pct_three_fifths [simplified])

lemma spend_share_ex_globalcomp:
  "spend_share ex_request ex_globalcomp = Fin (7237927972559725 / 281474976710656)"
  by (simp add: spend_share_def rounded_ratio_def rounded_total_ex_request ex_globalcomp_def
      fl_9_35 fl_pct_9_35 [simplified])

lemma spend_share_ex_nextgen:
  "spend_share ex_request ex_nextgen = Fin (2010535547933257 / 140737488355328)"
  by (simp add: spend_share_def rounded_ratio_def rounded_total_ex_request ex_nextgen_def
      fl_1_7 fl_pct_1_7 [simplified])

lemma risk_single_source_ex_techsource:
  "risk_single_source (Fin 60) ex_techsource = ''Single-source: TechSource ($4.2M, 60%)''"
  by (simp add: risk_single_source_def ex_techsource_def fl_21_5 fmt_0f_def fmt_1f_def
      round_half_even_def str_nat.simps)

text \<open>
  Claim C6. For every valid request the fallback rule engine returns a result whose
  three lists are each the first 5 entries collected in supplier order, one fixed
  default statement standing for a list that would be empty, so that each list has
  between 1 and 5 entries; the confidence score is exactly 0.65.
\<close>

theorem fallback_lists_and_confidence:
  assumes "valid_request req"
  shows "\<exists>r. FallbackInsightGenerator_generate req = Inr r
           \<and> key_risks r =
               (if collected_risks req = [] then [''No critical risks identified'']
                else take 5 (collected_risks req))
           \<and> negotiation_levers r =
               (if collected_levers req = [] then [''Review contracts for opportunities'']
                else take 5 (collected_levers req))
           \<and> recommended_actions_next_90_days r =
               (if collected_actions req = [] then [''Quarterly supplier review'']
                else take 5 (collected_actions req))
           \<and> 1 \<le> length (key_risks r) \<and> length (key_risks r) \<le> 5
           \<and> 1 \<le> length (negotiation_levers r) \<and> length (negotiation_levers r) \<le> 5
           \<and> 1 \<le> length (recommended_actions_next_90_days r)
           \<and> length (recommended_actions_next_90_days r) \<le> 5
           \<and> confidence_score r = 0.65"
proof -
  note ret = fallback_returns [OF fallback_returns_valid [OF assms]]
  show ?thesis
    unfolding ret
    using first5_or_length [of "collected_risks req" "''No critical risks identified''"]
      first5_or_length [of "collected_levers req" "''Review contracts for opportunities''"]
      first5_or_length [of "collected_actions req" "''Quarterly supplier review''"]
    by (simp add: first5_or_eq)
qed

text \<open>
  The three-supplier request: three risks, two levers, two actions, in supplier order.
\<close>

theorem fallback_lists_and_confidence_witness:
  "valid_request ex_request
   \<and> (\<exists>r. FallbackInsightGenerator_generate ex_request = Inr r
        \<and> key_risks r = [''Single-source: TechSource ($4.2M, 60%)'',
                         ''Urgent: GlobalComp expires in 2 months'',
                         ''Low delivery: GlobalComp at 78%'']
        \<and> negotiation_levers r = [''Volume leverage: TechSource (60% spend)'',
                                  ''Top performer: NextGen (97%)'']
        \<and> recommended_actions_next_90_days r = [''Start renewal talks with TechSource'',
                                                ''Renew contract with GlobalComp'']
        \<and> confidence_score r = 0.65)"
proof -
  note v = valid_ex_request
  note ss = suppliers_ex_request
  have r: "collected_risks ex_request = [''Single-source: TechSource ($4.2M, 60%)'',
                         ''Urgent: GlobalComp expires in 2 months'',
                         ''Low delivery: GlobalComp at 78%'']"
  proof -
    have 1: "supplier_risks ex_request ex_techsource =
        [''Single-source: TechSource ($4.2M, 60%)'']"
      unfolding supplier_risks_def spend_share_ex_techsource risk_single_source_ex_techsource
      by (simp add: ex_techsource_def)
    have 2: "supplier_risks ex_request ex_globalcomp =
        [''Urgent: GlobalComp expires in 2 months'', ''Low delivery: GlobalComp at 78%'']"
      by (simp add: supplier_risks_def risk_urgent_def risk_low_delivery_def fmt_0f_def
          round_half_even_def str_int_def str_nat.simps ex_globalcomp_def)
    have 3: "supplier_risks ex_request ex_nextgen = []"
      by (simp add: supplier_risks_def ex_nextgen_def)
    show ?thesis
      by (simp add: collected_risks_def ss 1 2 3)
  qed
  have l: "collected_levers ex_request = [''Volume leverage: TechSource (60% spend)'',
                                  ''Top performer: NextGen (97%)'']"
  proof -
    have 1: "supplier_levers ex_request ex_techsource =
        [''Volume leverage: TechSource (60% spend)'']"
      unfolding supplier_levers_def spend_share_ex_techsource
      by (simp add: lever_volume_def fmt_0f_def round_half_even_def str_nat.simps
          ex_techsource_def)
    have 2: "supplier_levers ex_request ex_globalcomp = []"
      unfolding supplier_levers_def spend_share_ex_globalcomp
      by (simp add: ex_globalcomp_def)
    have 3: "supplier_levers ex_request ex_nextgen = [''Top performer: NextGen (97%)'']"
      unfolding supplier_levers_def spend_share_ex_nextgen
      by (simp add: lever_top_def fmt_0f_def round_half_even_def str_nat.simps ex_nextgen_def)
    show ?thesis
      by (simp add: collected_levers_def ss 1 2 3)
  qed
  have a: "collected_actions ex_request = [''Start renewal talks with TechSource'',
                                                ''Renew contract with GlobalComp'']"
    by (simp add: collected_actions_def supplier_actions_def action_renew_def action_talks_def
        ss ex_techsource_def ex_globalcomp_def ex_nextgen_def)
  from fallback_lists_and_confidence [OF v] obtain x where
    "FallbackInsightGenerator_generate ex_request = Inr x"
    "key_risks x = (if collected_risks ex_request = [] then [''No critical risks identified'']
                else take 5 (collected_risks ex_request))"
    "negotiation_levers x =
               (if collected_levers ex_request = [] then [''Review contracts for opportunities'']
                else take 5 (collected_levers ex_request))"
    "recommended_actions_next_90_days x =
               (if collected_actions ex_request = [] then [''Quarterly supplier review'']
                else take 5 (collected_actions ex_request))"
    "confidence_score x = 0.65"
    by blast
  then show ?thesis
    using v by (simp add: r l a)
qed







lemma default_risk_not_supplier_derived:
  "''No critical risks identified'' \<notin> set (supplier_risks req s)"
  by (simp add: supplier_risks_def risk_single_source_def risk_urgent_def risk_low_delivery_def)

lemma triggers_high_has_risk: "triggers_high req s \<Longrightarrow> supplier_risks req s \<noteq> []"
  by (auto simp: triggers_high_def supplier_risks_def)

text \<open>
  Claim C10. When the fallback rule engine assigns High on a valid request, the returned
  key risks are the first 5 collected risk entries, there is at least one, each comes
  from a supplier of the request, and the list is not the default placeholder list;
  each condition that triggers High (single-source, expiry within 3 months, delivery
  below 80 percent) makes its supplier contribute the corresponding risk entry.
\<close>

theorem fallback_high_has_supplier_risk:
  assumes "valid_request req"
    and "FallbackInsightGenerator_generate req = Inr r"
    and "overall_risk_level r = HIGH"
  shows "key_risks r = take 5 (collected_risks req)
       \<and> key_risks r \<noteq> []
       \<and> key_risks r \<noteq> [''No critical risks identified'']
       \<and> (\<forall>e\<in>set (key_risks r). \<exists>s\<in>set (suppliers req). e \<in> set (supplier_risks req s))
       \<and> (\<forall>s\<in>set (suppliers req).
            (single_source_dependency s \<longrightarrow>
               risk_single_source (spend_share req s) s \<in> set (supplier_risks req s))
          \<and> (contract_expiry_months s \<le> 3 \<longrightarrow> risk_urgent s \<in> set (supplier_risks req s))
          \<and> (on_time_delivery_pct s < 80 \<longrightarrow>
               risk_low_delivery s \<in> set (supplier_risks req s)))"
proof -
  note ret = fallback_returns [OF fallback_returns_valid [OF assms(1)]]
  from assms(2) have kr: "key_risks r = first5_or (collected_risks req) ''No critical risks identified''"
    and lv: "overall_risk_level r =
            (if high_risk (total_spend req) (suppliers req) then HIGH
             else if med_risk (suppliers req) then MEDIUM else LOW)"
    unfolding ret by auto
  from lv assms(3) have "high_risk (total_spend req) (suppliers req)"
    by (simp split: if_splits)
  then obtain s where s: "s \<in> set (suppliers req)" "triggers_high req s"
    unfolding high_risk_spec list_ex_iff by blast
  then have ne: "collected_risks req \<noteq> []"
    using triggers_high_has_risk [OF s(2)] by (auto simp: collected_risks_def)
  with kr have k: "key_risks r = take 5 (collected_risks req)"
    by (simp add: first5_or_eq)
  have sub: "set (key_risks r) \<subseteq> set (collected_risks req)"
    unfolding k by (rule set_take_subset)
  have derived: "\<forall>e\<in>set (key_risks r). \<exists>s\<in>set (suppliers req). e \<in> set (supplier_risks req s)"
    using sub by (auto simp: collected_risks_def)
  have nd: "key_risks r \<noteq> [''No critical risks identified'']"
  proof
    assume "key_risks r = [''No critical risks identified'']"
    with derived obtain t where "''No critical risks identified'' \<in> set (supplier_risks req t)"
      by auto
    with default_risk_not_supplier_derived show False by blast
  qed
  have each: "\<forall>s\<in>set (suppliers req).
            (single_source_dependency s \<longrightarrow>
               risk_single_source (spend_share req s) s \<in> set (supplier_risks req s))
          \<and> (contract_expiry_months s \<le> 3 \<longrightarrow> risk_urgent s \<in> set (supplier_risks req s))
          \<and> (on_time_delivery_pct s < 80 \<longrightarrow>
               risk_low_delivery s \<in> set (supplier_risks req s))"
    by (simp add: supplier_risks_def)
  from k ne nd derived each show ?thesis
    by simp
qed

text \<open>
  The mixed request is High through the supplier that expires in 2 months.
\<close>

theorem fallback_high_has_supplier_risk_witness:
  "valid_request ex_request_mixed
   \<and> (\<exists>r. FallbackInsightGenerator_generate ex_request_mixed = Inr r
        \<and> overall_risk_level r = HIGH
        \<and> key_risks r \<noteq> [''No critical risks identified'']
        \<and> risk_urgent ex_globalcomp \<in> set (supplier_risks ex_request_mixed ex_globalcomp))"
proof -
  note v = valid_ex_request_mixed
  note ret = fallback_returns [OF fallback_returns_valid [OF v]]
  have h: "high_risk (total_spend ex_request_mixed) (suppliers ex_request_mixed)"
    by (simp add: high_risk_def suppliers_ex_request_mixed ex_globalcomp_def)
  have g: "ex_globalcomp \<in> set (suppliers ex_request_mixed)"
    by (simp add: ex_request_mixed_def)
  have m: "contract_expiry_months ex_globalcomp \<le> 3"
    by (simp add: ex_globalcomp_def)
  obtain r where r: "FallbackInsightGenerator_generate ex_request_mixed = Inr r"
    using ret by blast
  have l: "overall_risk_level r = HIGH"
    using r h unfolding ret by auto
  from fallback_high_has_supplier_risk [OF v r l] g m v r l show ?thesis
    by blast
qed

lemma upto_last_brace_Nil [simp]: "upto_last_brace [] = []"
  by (simp add: upto_last_brace_def)

lemma upto_last_brace_Cons:
  "upto_last_brace (c # cs) =
     (if upto_last_brace cs = [] then (if c = CHR ''}'' then [c] else [])
      else c # upto_last_brace cs)"
  by (auto simp add: upto_last_brace_def dropWhile_append)

lemma upto_last_brace_empty_iff: "upto_last_brace s = [] \<longleftrightarrow> CHR ''}'' \<notin> set s"
  by (auto simp: upto_last_brace_def)

lemma set_tl_dropWhile: "x \<in> set (tl (dropWhile P xs)) \<Longrightarrow> x \<in> set xs"
  by (metis list.sel(2) list.set_sel(2) set_dropWhileD empty_iff list.set(1))

lemma greedy_to_brace_eq:
  "greedy_to_brace cs = (if upto_last_brace cs = [] then None else Some (upto_last_brace cs))"
  by (induction cs) (simp_all add: upto_last_brace_Cons)

lemma re_search_braces_eq: "re_search_braces s = brace_span s"
proof (induction s)
  case Nil
  show ?case by (simp add: brace_span_def)
next
  case (Cons c cs)
  show ?case
  proof (cases "c = CHR ''{''")
    case True
    show ?thesis
    proof (cases "upto_last_brace cs = []")
      case e: True
      have "\<And>xs. upto_last_brace xs = [] \<Longrightarrow> brace_span xs = None"
        unfolding upto_last_brace_empty_iff brace_span_def Let_def
        by (auto dest: set_tl_dropWhile)
      from this [OF e] have "brace_span cs = None" .
      with True e Cons show ?thesis
        by (simp add: greedy_to_brace_eq brace_span_def)
    next
      case False
      with True show ?thesis
        by (simp add: greedy_to_brace_eq brace_span_def)
    qed
  next
    case False
    with Cons show ?thesis
      by (simp add: brace_span_def)
  qed
qed

lemma upto_last_brace_split:
  "upto_last_brace s \<noteq> [] \<Longrightarrow>
     \<exists>post. s = upto_last_brace s @ post \<and> CHR ''}'' \<notin> set post
            \<and> last (upto_last_brace s) = CHR ''}''"
proof -
  assume ne: "upto_last_brace s \<noteq> []"
  let ?P = "\<lambda>c. c \<noteq> CHR ''}''"
  have "rev s = takeWhile ?P (rev s) @ dropWhile ?P (rev s)"
    by simp
  then have "s = rev (dropWhile ?P (rev s)) @ rev (takeWhile ?P (rev s))"
    by (metis rev_append rev_rev_ident)
  then have 1: "s = upto_last_brace s @ rev (takeWhile ?P (rev s))"
    by (simp add: upto_last_brace_def)
  have 2: "CHR ''}'' \<notin> set (rev (takeWhile ?P (rev s)))"
    by (auto dest: set_takeWhileD)
  from ne have d: "dropWhile ?P (rev s) \<noteq> []"
    by (simp add: upto_last_brace_def)
  then have "\<not> ?P (hd (dropWhile ?P (rev s)))"
    by (rule hd_dropWhile)
  then have 3: "last (upto_last_brace s) = CHR ''}''"
    using d by (simp add: upto_last_brace_def last_rev)
  from 1 2 3 show ?thesis by blast
qed

lemma brace_span_Some:
  assumes "brace_span s = Some m"
  shows "\<exists>pre post. s = pre @ m @ post \<and> CHR ''{'' \<notin> set pre \<and> CHR ''}'' \<notin> set post
           \<and> hd m = CHR ''{'' \<and> last m = CHR ''}'' \<and> 2 \<le> length m"
proof -
  let ?Q = "\<lambda>c. c \<noteq> CHR ''{''"
  let ?a = "dropWhile ?Q s"
  from assms have a: "?a \<noteq> []" and u: "upto_last_brace (tl ?a) \<noteq> []"
    and m: "m = CHR ''{'' # upto_last_brace (tl ?a)"
    by (auto simp: brace_span_def Let_def split: if_splits)
  from a have "\<not> ?Q (hd ?a)" by (rule hd_dropWhile)
  with a have ha: "?a = CHR ''{'' # tl ?a"
    by (metis list.collapse)
  from upto_last_brace_split [OF u] obtain post where
    p: "tl ?a = upto_last_brace (tl ?a) @ post" "CHR ''}'' \<notin> set post"
       "last (upto_last_brace (tl ?a)) = CHR ''}''"
    by blast
  have "s = takeWhile ?Q s @ ?a" by simp
  also have "?a = m @ post"
    using ha p(1) m by (metis append_Cons)
  finally have 1: "s = takeWhile ?Q s @ m @ post" .
  have 2: "CHR ''{'' \<notin> set (takeWhile ?Q s)"
    by (auto dest: set_takeWhileD)
  have 3: "last m = CHR ''}''"
    using m u p(3) by simp
  have 4: "2 \<le> length m"
    using m u by (cases "upto_last_brace (tl ?a)") simp_all
  from 1 2 3 4 p(2) m show ?thesis
    by (metis list.sel(1))
qed

lemma brace_span_None:
  assumes "brace_span s = None"
  shows "\<not> (\<exists>pre mid post. s = pre @ CHR ''{'' # mid @ CHR ''}'' # post)"
proof
  assume "\<exists>pre mid post. s = pre @ CHR ''{'' # mid @ CHR ''}'' # post"
  then obtain pre mid post where s: "s = pre @ CHR ''{'' # mid @ CHR ''}'' # post"
    by blast
  let ?Q = "\<lambda>c. c \<noteq> CHR ''{''"
  let ?a = "dropWhile ?Q s"
  have "CHR ''{'' \<in> set s" using s by simp
  then have a: "?a \<noteq> []" by auto
  have "takeWhile ?Q s @ ?a = pre @ CHR ''{'' # mid @ CHR ''}'' # post"
    using s by simp
  have "CHR ''}'' \<in> set (tl ?a)"
  proof -
    have "?a = dropWhile ?Q pre @ CHR ''{'' # mid @ CHR ''}'' # post
          \<or> ?a = CHR ''{'' # mid @ CHR ''}'' # post"
      unfolding s by (simp add: dropWhile_append)
    then show ?thesis
    proof
      assume e: "?a = dropWhile ?Q pre @ CHR ''{'' # mid @ CHR ''}'' # post"
      show ?thesis
      proof (cases "dropWhile ?Q pre")
        case Nil
        with e show ?thesis by simp
      next
        case (Cons x xs)
        with e show ?thesis by simp
      qed
    next
      assume "?a = CHR ''{'' # mid @ CHR ''}'' # post"
      then show ?thesis by simp
    qed
  qed
  then have u: "upto_last_brace (tl ?a) \<noteq> []"
    by (simp add: upto_last_brace_empty_iff)
  from assms have "?a = [] \<or> upto_last_brace (tl ?a) = []"
    by (auto simp: brace_span_def Let_def split: if_splits)
  with a u show False
    by blast
qed

section \<open>Properties of the response parser\<close>

lemma is_ValueError_iff: "is_ValueError e \<longleftrightarrow> e = ValueError \<or> e = JSONDecodeError"
  by (cases e) simp_all

text \<open>
  The regular-expression search finds the span from the first opening brace to the last
  closing brace, so the parser is the specification's two attempts.
\<close>

lemma parse_response_spec:
  "parse_response E text =
     (case json_loads E (clean_text text) of
        Inr v \<Rightarrow> Inr v
      | Inl e \<Rightarrow>
          if e = JSONDecodeError
          then (case brace_span (clean_text text) of
                  Some m \<Rightarrow> json_loads E m
                | None \<Rightarrow> Inl ValueError)
          else Inl e)"
  unfolding parse_response_def Let_def re_search_braces_eq ..

lemma rstrip_no_trailing_space:
  "s \<noteq> [] \<Longrightarrow> \<not> isspace (last s) \<Longrightarrow> rstrip (s @ ws) = s @ rstrip ws"
proof (cases "\<forall>x\<in>set ws. isspace x")
  case True
  assume s: "s \<noteq> []" "\<not> isspace (last s)"
  from True have "dropWhile isspace (rev ws @ rev s) = dropWhile isspace (rev s)"
    by (intro dropWhile_append2) simp
  also have "\<dots> = rev s"
    using s by (simp add: dropWhile_eq_self_iff hd_rev)
  finally show ?thesis
    using True by (simp add: rstrip_def)
next
  case False
  then obtain x where "x \<in> set (rev ws)" "\<not> isspace x"
    by auto
  then have "dropWhile isspace (rev ws @ rev s) = dropWhile isspace (rev ws) @ rev s"
    by (intro dropWhile_append1) simp_all
  then show ?thesis
    by (simp add: rstrip_def)
qed

lemma rstrip_id: "s \<noteq> [] \<Longrightarrow> \<not> isspace (last s) \<Longrightarrow> rstrip s = s"
  using rstrip_no_trailing_space [of s "[]"] by (simp add: rstrip_def)

text \<open>What \<^verbatim>\<open>rstrip\<close> and \<^verbatim>\<open>strip\<close> remove is whitespace, and they remove all of it.\<close>

lemma rstrip_decomp:
  "\<exists>post. u = rstrip u @ post \<and> (\<forall>c\<in>set post. isspace c)"
proof -
  have "rev (takeWhile isspace (rev u) @ dropWhile isspace (rev u)) = u"
    by (simp only: takeWhile_dropWhile_id rev_rev_ident)
  then have "rev (dropWhile isspace (rev u)) @ rev (takeWhile isspace (rev u)) = u"
    by (simp only: rev_append)
  then have "u = rstrip u @ rev (takeWhile isspace (rev u))"
    by (simp only: rstrip_def)
  moreover have "\<forall>c\<in>set (rev (takeWhile isspace (rev u))). isspace c"
    by (auto dest: set_takeWhileD)
  ultimately show ?thesis
    by blast
qed

lemma rstrip_last: "rstrip u \<noteq> [] \<Longrightarrow> \<not> isspace (last (rstrip u))"
  unfolding rstrip_def using hd_dropWhile [of isspace "rev u"] by (simp add: last_rev)

lemma strip_decomp:
  "\<exists>pre post. text = pre @ strip text @ post
     \<and> (\<forall>c\<in>set pre. isspace c) \<and> (\<forall>c\<in>set post. isspace c)"
proof -
  obtain post where post: "dropWhile isspace text = strip text @ post" "\<forall>c\<in>set post. isspace c"
    unfolding strip_def using rstrip_decomp [of "dropWhile isspace text"] by blast
  have "text = takeWhile isspace text @ dropWhile isspace text"
    by simp
  then have "text = takeWhile isspace text @ strip text @ post"
    using post(1) by simp
  moreover have "\<forall>c\<in>set (takeWhile isspace text). isspace c"
    by (auto dest: set_takeWhileD)
  ultimately show ?thesis
    using post(2) by blast
qed

lemma strip_ends:
  assumes "strip text \<noteq> []"
  shows "\<not> isspace (hd (strip text)) \<and> \<not> isspace (last (strip text))"
proof -
  let ?u = "dropWhile isspace text"
  obtain post where post: "?u = strip text @ post"
    unfolding strip_def using rstrip_decomp [of ?u] by blast
  with assms have u: "?u \<noteq> []"
    by auto
  have "hd ?u = hd (strip text)"
    using post assms by (metis hd_append2)
  moreover have "\<not> isspace (hd ?u)"
    using u by (rule hd_dropWhile)
  moreover have "\<not> isspace (last (strip text))"
    using assms unfolding strip_def by (rule rstrip_last)
  ultimately show ?thesis
    by simp
qed

lemma startswith_iff: "startswith s p \<longleftrightarrow> (\<exists>r. s = p @ r)"
proof
  assume "startswith s p"
  then have "s = p @ drop (length p) s"
    unfolding startswith_def by (metis append_take_drop_id)
  then show "\<exists>r. s = p @ r" ..
next
  assume "\<exists>r. s = p @ r"
  then show "startswith s p"
    by (auto simp: startswith_def)
qed

lemma endswith_iff: "endswith s p \<longleftrightarrow> (\<exists>b. s = b @ p)"
proof
  assume "endswith s p"
  then have "s = take (length s - length p) s @ p"
    unfolding endswith_def by (metis append_take_drop_id)
  then show "\<exists>b. s = b @ p" ..
next
  assume "\<exists>b. s = b @ p"
  then show "endswith s p"
    by (auto simp: endswith_def)
qed

text \<open>Text that starts with no fence is cleaned by stripping alone.\<close>

lemma clean_text_unfenced: "\<not> (\<exists>r. strip text = fence @ r) \<Longrightarrow> clean_text text = strip text"
  by (simp add: clean_text_def startswith_iff)

text \<open>
  The leading substitution removes the fence, the tag \<^verbatim>\<open>json\<close> when it follows, and
  the whitespace after them.
\<close>

lemma sub_leading_fence_decomp:
  "\<exists>tag ws. r = tag @ ws @ sub_leading_fence (fence @ r)
     \<and> (tag = ''json'' \<or> (tag = [] \<and> \<not> (\<exists>q. r = ''json'' @ q)))
     \<and> (\<forall>c\<in>set ws. isspace c)
     \<and> (sub_leading_fence (fence @ r) \<noteq> [] \<longrightarrow> \<not> isspace (hd (sub_leading_fence (fence @ r))))"
proof -
  let ?r' = "if startswith r ''json'' then drop 4 r else r"
  let ?tag = "if startswith r ''json'' then ''json'' else []"
  have sw: "startswith (fence @ r) fence"
    by (simp add: startswith_iff)
  have d: "drop 3 (fence @ r) = r"
    by (simp add: fence_def)
  have l: "sub_leading_fence (fence @ r) = dropWhile isspace ?r'"
    unfolding sub_leading_fence_def Let_def d using sw by simp
  have r: "r = ?tag @ ?r'"
  proof (cases "startswith r ''json''")
    case True
    have len: "length ''json'' = 4"
      by simp
    from True have "take (length ''json'') r = ''json''"
      unfolding startswith_def .
    then have "r = ''json'' @ drop (length ''json'') r"
      by (metis append_take_drop_id)
    then have "r = ''json'' @ drop 4 r"
      unfolding len .
    with True show ?thesis by simp
  next
    case False
    then show ?thesis by simp
  qed
  have "?r' = takeWhile isspace ?r' @ dropWhile isspace ?r'"
    by simp
  with r have 1: "r = ?tag @ takeWhile isspace ?r' @ sub_leading_fence (fence @ r)"
    unfolding l by simp
  have 2: "?tag = ''json'' \<or> (?tag = [] \<and> \<not> (\<exists>q. r = ''json'' @ q))"
    by (simp add: startswith_iff)
  have 3: "\<forall>c\<in>set (takeWhile isspace ?r'). isspace c"
    by (auto dest: set_takeWhileD)
  have 4: "sub_leading_fence (fence @ r) \<noteq> [] \<longrightarrow> \<not> isspace (hd (sub_leading_fence (fence @ r)))"
    unfolding l using hd_dropWhile [of isspace ?r'] by blast
  from 1 2 3 4 show ?thesis
    by blast
qed

text \<open>
  The trailing substitution removes a fence that ends the text, with the whitespace
  before it; a text that ends otherwise, and not with a newline, is left as it is.
\<close>

lemma sub_trailing_fence_fenced:
  "\<exists>body ws. b = body @ ws \<and> (\<forall>c\<in>set ws. isspace c)
     \<and> (body \<noteq> [] \<longrightarrow> \<not> isspace (last body))
     \<and> sub_trailing_fence (b @ fence) = body"
proof -
  have "endswith (b @ fence) fence"
    by (simp add: endswith_iff)
  moreover have "take (length (b @ fence) - 3) (b @ fence) = b"
    by (simp add: fence_def)
  ultimately have s: "sub_trailing_fence (b @ fence) = rstrip b"
    by (simp add: sub_trailing_fence_def)
  obtain ws where "b = rstrip b @ ws" "\<forall>c\<in>set ws. isspace c"
    using rstrip_decomp [of b] by blast
  moreover have "rstrip b \<noteq> [] \<longrightarrow> \<not> isspace (last (rstrip b))"
    using rstrip_last [of b] by blast
  ultimately show ?thesis
    unfolding s by blast
qed

lemma sub_trailing_fence_unfenced:
  assumes "\<not> (\<exists>b. t = b @ fence)" and "t = [] \<or> \<not> isspace (last t)"
  shows "sub_trailing_fence t = t"
proof -
  have 1: "\<not> endswith t fence"
    using assms(1) by (simp add: endswith_iff)
  have 2: "\<not> endswith t (fence @ [CHR 0x0A])"
  proof
    assume "endswith t (fence @ [CHR 0x0A])"
    then obtain b where "t = b @ fence @ [CHR 0x0A]"
      unfolding endswith_iff by blast
    then have "t \<noteq> []" "last t = CHR 0x0A"
      by simp_all
    moreover have "isspace (CHR 0x0A)"
      by (simp add: isspace_def)
    ultimately show False
      using assms(2) by simp
  qed
  from 1 2 show ?thesis
    by (simp add: sub_trailing_fence_def)
qed

text \<open>The cleaned text of a stripped text that starts with a fence.\<close>

lemma clean_text_fenced_cases:
  assumes s: "strip text = fence @ r"
  shows "\<exists>tag ws rest. r = tag @ ws @ rest
     \<and> (tag = ''json'' \<or> (tag = [] \<and> \<not> (\<exists>q. r = ''json'' @ q)))
     \<and> (\<forall>c\<in>set ws. isspace c)
     \<and> (rest \<noteq> [] \<longrightarrow> \<not> isspace (hd rest))
     \<and> (\<not> (\<exists>b. rest = b @ fence) \<longrightarrow> clean_text text = rest)
     \<and> (\<forall>b. rest = b @ fence \<longrightarrow>
           (\<exists>body ws'. b = body @ ws' \<and> (\<forall>c\<in>set ws'. isspace c)
              \<and> (body \<noteq> [] \<longrightarrow> \<not> isspace (last body))
              \<and> clean_text text = body))"
proof -
  let ?rest = "sub_leading_fence (fence @ r)"
  have c: "clean_text text = sub_trailing_fence ?rest"
    by (simp add: clean_text_def s startswith_iff)
  obtain tag ws where d: "r = tag @ ws @ ?rest"
    "tag = ''json'' \<or> (tag = [] \<and> \<not> (\<exists>q. r = ''json'' @ q))"
    "\<forall>c\<in>set ws. isspace c"
    "?rest \<noteq> [] \<longrightarrow> \<not> isspace (hd ?rest)"
    using sub_leading_fence_decomp [of r] by blast
  have ne: "strip text \<noteq> []"
    by (simp add: s fence_def)
  have lst: "?rest = [] \<or> \<not> isspace (last ?rest)"
  proof (cases "?rest = []")
    case True
    then show ?thesis ..
  next
    case False
    have "strip text = (fence @ tag @ ws) @ ?rest"
      using s d(1) by simp
    with False have "last (strip text) = last ?rest"
      by (metis last_appendR)
    with strip_ends [OF ne] show ?thesis
      by simp
  qed
  have 5: "\<not> (\<exists>b. ?rest = b @ fence) \<longrightarrow> clean_text text = ?rest"
    unfolding c using sub_trailing_fence_unfenced [OF _ lst] by blast
  have 6: "\<forall>b. ?rest = b @ fence \<longrightarrow>
           (\<exists>body ws'. b = body @ ws' \<and> (\<forall>c\<in>set ws'. isspace c)
              \<and> (body \<noteq> [] \<longrightarrow> \<not> isspace (last body))
              \<and> clean_text text = body)"
  proof (intro allI impI)
    fix b
    assume b: "?rest = b @ fence"
    show "\<exists>body ws'. b = body @ ws' \<and> (\<forall>c\<in>set ws'. isspace c)
              \<and> (body \<noteq> [] \<longrightarrow> \<not> isspace (last body))
              \<and> clean_text text = body"
      unfolding c b by (rule sub_trailing_fence_fenced)
  qed
  from d 5 6 show ?thesis
    by blast
qed

text \<open>Text with no whitespace at its ends and no backtick at its start is its own
  cleaned text.\<close>

lemma clean_text_plain:
  assumes "s \<noteq> []" and "\<not> isspace (hd s)" and "\<not> isspace (last s)" and "hd s \<noteq> CHR 0x60"
  shows "clean_text s = s"
proof -
  have "dropWhile isspace s = s"
    using assms(1,2) by (simp add: dropWhile_eq_self_iff)
  moreover have "rstrip s = s"
    using assms(1,3) by (rule rstrip_id)
  ultimately have st: "strip s = s"
    by (simp add: strip_def)
  have "\<not> (\<exists>r. s = fence @ r)"
  proof
    assume "\<exists>r. s = fence @ r"
    then have "hd s = CHR 0x60"
      by (auto simp: fence_def)
    with assms(4) show False ..
  qed
  then show ?thesis
    using clean_text_unfenced [of s] by (simp add: st)
qed

lemma nested_text_clean:
  "0 < n \<Longrightarrow> clean_text (replicate n (CHR ''['') @ ''{}'') = replicate n (CHR ''['') @ ''{}''"
  by (rule clean_text_plain) (simp_all add: isspace_def hd_append)

lemma nested_text_span: "brace_span (replicate n (CHR ''['') @ ''{}'') = Some ''{}''"
  by (simp add: brace_span_def upto_last_brace_def dropWhile_append)

lemma clean_ex_nested_text: "clean_text ex_nested_text = ex_nested_text"
  unfolding ex_nested_text_def by (rule nested_text_clean) simp

lemma span_ex_nested_text: "brace_span ex_nested_text = Some ''{}''"
  unfolding ex_nested_text_def by (rule nested_text_span)

lemma ex_nested_text_not_object: "''{}'' \<noteq> ex_nested_text"
proof
  assume "''{}'' = ex_nested_text"
  then have "length ''{}'' = length ex_nested_text"
    by (rule arg_cong)
  then show False
    by (simp add: ex_nested_text_def)
qed

text \<open>
  Claim C8, as amended. On every raw text the parser returns what \<^verbatim>\<open>json.loads\<close>
  returns on the whole cleaned text; when that raises \<^verbatim>\<open>JSONDecodeError\<close> it returns
  or raises what \<^verbatim>\<open>json.loads\<close> does on the span from the first opening brace to the
  last closing brace of the cleaned text, and raises \<^verbatim>\<open>ValueError\<close> when there is no
  such span; any other exception of the direct parse leaves the parser as it is, with
  no second attempt. So a failure is a \<^verbatim>\<open>ValueError\<close> (the parse error;
  \<^verbatim>\<open>JSONDecodeError\<close> is one) whenever \<^verbatim>\<open>json.loads\<close> fails with \<^verbatim>\<open>JSONDecodeError\<close>
  only. The cleaned text is the text without the whitespace at its two ends and, when
  what remains starts with a fence, without that fence, the tag \<^verbatim>\<open>json\<close> when it
  follows and the whitespace after them, and then without a fence that ends it and the
  whitespace before that fence.
\<close>

theorem parse_response_all_or_nothing:
  "(case json_loads E (clean_text text) of
      Inr v \<Rightarrow> parse_response E text = Inr v
    | Inl e \<Rightarrow>
        if e = JSONDecodeError
        then (case brace_span (clean_text text) of
                Some m \<Rightarrow> parse_response E text = json_loads E m
              | None \<Rightarrow> parse_response E text = Inl ValueError)
        else parse_response E text = Inl e)
   \<and> ((\<forall>s e. json_loads E s = Inl e \<longrightarrow> e = JSONDecodeError) \<longrightarrow>
        (\<forall>e. parse_response E text = Inl e \<longrightarrow> is_ValueError e))
   \<and> (\<forall>m. brace_span (clean_text text) = Some m \<longrightarrow>
         (\<exists>pre post. clean_text text = pre @ m @ post
            \<and> CHR ''{'' \<notin> set pre \<and> CHR ''}'' \<notin> set post
            \<and> hd m = CHR ''{'' \<and> last m = CHR ''}''))
   \<and> (brace_span (clean_text text) = None \<longrightarrow>
         \<not> (\<exists>pre mid post. clean_text text = pre @ CHR ''{'' # mid @ CHR ''}'' # post))
   \<and> (\<exists>pre post. text = pre @ strip text @ post
         \<and> (\<forall>c\<in>set pre. isspace c) \<and> (\<forall>c\<in>set post. isspace c))
   \<and> (strip text \<noteq> [] \<longrightarrow> \<not> isspace (hd (strip text)) \<and> \<not> isspace (last (strip text)))
   \<and> (\<not> (\<exists>r. strip text = fence @ r) \<longrightarrow> clean_text text = strip text)
   \<and> (\<forall>r. strip text = fence @ r \<longrightarrow>
         (\<exists>tag ws rest. r = tag @ ws @ rest
            \<and> (tag = ''json'' \<or> (tag = [] \<and> \<not> (\<exists>q. r = ''json'' @ q)))
            \<and> (\<forall>c\<in>set ws. isspace c)
            \<and> (rest \<noteq> [] \<longrightarrow> \<not> isspace (hd rest))
            \<and> (\<not> (\<exists>b. rest = b @ fence) \<longrightarrow> clean_text text = rest)
            \<and> (\<forall>b. rest = b @ fence \<longrightarrow>
                  (\<exists>body ws'. b = body @ ws' \<and> (\<forall>c\<in>set ws'. isspace c)
                     \<and> (body \<noteq> [] \<longrightarrow> \<not> isspace (last body))
                     \<and> clean_text text = body))))"
proof -
  have 1: "case json_loads E (clean_text text) of
      Inr v \<Rightarrow> parse_response E text = Inr v
    | Inl e \<Rightarrow>
        if e = JSONDecodeError
        then (case brace_span (clean_text text) of
                Some m \<Rightarrow> parse_response E text = json_loads E m
              | None \<Rightarrow> parse_response E text = Inl ValueError)
        else parse_response E text = Inl e"
    by (simp add: parse_response_spec split: sum.splits option.splits)
  have 2: "(\<forall>s e. json_loads E s = Inl e \<longrightarrow> e = JSONDecodeError) \<longrightarrow>
        (\<forall>e. parse_response E text = Inl e \<longrightarrow> is_ValueError e)"
  proof (intro impI allI)
    fix e
    assume d: "\<forall>s e. json_loads E s = Inl e \<longrightarrow> e = JSONDecodeError"
      and p: "parse_response E text = Inl e"
    from p have "e = ValueError \<or> (\<exists>s. json_loads E s = Inl e)"
      unfolding parse_response_spec by (auto split: sum.splits option.splits if_splits)
    with d show "is_ValueError e"
      by (auto simp: is_ValueError_iff)
  qed
  have 3: "\<forall>m. brace_span (clean_text text) = Some m \<longrightarrow>
         (\<exists>pre post. clean_text text = pre @ m @ post
            \<and> CHR ''{'' \<notin> set pre \<and> CHR ''}'' \<notin> set post
            \<and> hd m = CHR ''{'' \<and> last m = CHR ''}'')"
    using brace_span_Some by blast
  have 4: "brace_span (clean_text text) = None \<longrightarrow>
         \<not> (\<exists>pre mid post. clean_text text = pre @ CHR ''{'' # mid @ CHR ''}'' # post)"
    using brace_span_None by blast
  have 5: "\<exists>pre post. text = pre @ strip text @ post
         \<and> (\<forall>c\<in>set pre. isspace c) \<and> (\<forall>c\<in>set post. isspace c)"
    by (rule strip_decomp)
  have 6: "strip text \<noteq> [] \<longrightarrow> \<not> isspace (hd (strip text)) \<and> \<not> isspace (last (strip text))"
    using strip_ends by blast
  have 7: "\<not> (\<exists>r. strip text = fence @ r) \<longrightarrow> clean_text text = strip text"
    using clean_text_unfenced by blast
  have 8: "\<forall>r. strip text = fence @ r \<longrightarrow>
         (\<exists>tag ws rest. r = tag @ ws @ rest
            \<and> (tag = ''json'' \<or> (tag = [] \<and> \<not> (\<exists>q. r = ''json'' @ q)))
            \<and> (\<forall>c\<in>set ws. isspace c)
            \<and> (rest \<noteq> [] \<longrightarrow> \<not> isspace (hd rest))
            \<and> (\<not> (\<exists>b. rest = b @ fence) \<longrightarrow> clean_text text = rest)
            \<and> (\<forall>b. rest = b @ fence \<longrightarrow>
                  (\<exists>body ws'. b = body @ ws' \<and> (\<forall>c\<in>set ws'. isspace c)
                     \<and> (body \<noteq> [] \<longrightarrow> \<not> isspace (last body))
                     \<and> clean_text text = body)))"
    using clean_text_fenced_cases by blast
  from 1 2 3 4 5 6 7 8 show ?thesis
    by (intro conjI)
qed

text \<open>
  A fenced and tagged object with whitespace around it, and a fenced array with no tag
  and no whitespace, parse directly; text around an object is recovered through the
  brace span; text with no braces, and a span that does not parse, both fail.
\<close>

theorem parse_response_all_or_nothing_witness:
  "clean_text (''  '' @ fence @ ''json'' @ [CHR 0x0A] @ ''{}'' @ [CHR 0x0A] @ fence @ [CHR 0x0A])
     = ''{}''
   \<and> parse_response ex_env
        (''  '' @ fence @ ''json'' @ [CHR 0x0A] @ ''{}'' @ [CHR 0x0A] @ fence @ [CHR 0x0A])
       = Inr (JObj [])
   \<and> clean_text (fence @ ''[]'' @ fence) = ''[]''
   \<and> parse_response ex_env (fence @ ''[]'' @ fence) = Inr (JArr [])
   \<and> clean_text '' see {} here '' = ''see {} here''
   \<and> brace_span ''see {} here'' = Some ''{}''
   \<and> parse_response ex_env '' see {} here '' = Inr (JObj [])
   \<and> parse_response ex_env ''no braces'' = Inl ValueError
   \<and> parse_response ex_env ''{oops}'' = Inl JSONDecodeError"
proof -
  let ?t1 = "''  '' @ fence @ ''json'' @ [CHR 0x0A] @ ''{}'' @ [CHR 0x0A] @ fence @ [CHR 0x0A]"
  let ?t2 = "fence @ ''[]'' @ fence"
  have c1: "clean_text ?t1 = ''{}''"
    by (simp add: clean_text_def strip_def rstrip_def isspace_def startswith_def endswith_def
        fence_def sub_leading_fence_def sub_trailing_fence_def)
  have c2: "clean_text ?t2 = ''[]''"
    by (simp add: clean_text_def strip_def rstrip_def isspace_def startswith_def endswith_def
        fence_def sub_leading_fence_def sub_trailing_fence_def)
  have c3: "clean_text '' see {} here '' = ''see {} here''"
    by (simp add: clean_text_def strip_def rstrip_def isspace_def startswith_def fence_def)
  have c4: "clean_text ''no braces'' = ''no braces''"
    by (simp add: clean_text_def strip_def rstrip_def isspace_def startswith_def fence_def)
  have c5: "clean_text ''{oops}'' = ''{oops}''"
    by (simp add: clean_text_def strip_def rstrip_def isspace_def startswith_def fence_def)
  have b3: "brace_span ''see {} here'' = Some ''{}''"
    by (simp add: brace_span_def upto_last_brace_def)
  have b4: "brace_span ''no braces'' = None"
    by (simp add: brace_span_def upto_last_brace_def)
  have b5: "brace_span ''{oops}'' = Some ''{oops}''"
    by (simp add: brace_span_def upto_last_brace_def)
  have l: "json_loads ex_env ''{}'' = Inr (JObj [])" "json_loads ex_env ''[]'' = Inr (JArr [])"
    "json_loads ex_env ''see {} here'' = Inl JSONDecodeError"
    "json_loads ex_env ''no braces'' = Inl JSONDecodeError"
    "json_loads ex_env ''{oops}'' = Inl JSONDecodeError"
    by (simp_all add: ex_env_def)
  have p1: "parse_response ex_env ?t1 = Inr (JObj [])"
    using parse_response_all_or_nothing [of ex_env ?t1] unfolding c1 by (simp add: l)
  have p2: "parse_response ex_env ?t2 = Inr (JArr [])"
    using parse_response_all_or_nothing [of ex_env ?t2] unfolding c2 by (simp add: l)
  have p3: "parse_response ex_env '' see {} here '' = Inr (JObj [])"
    using parse_response_all_or_nothing [of ex_env "'' see {} here ''"] unfolding c3
    by (simp add: l b3)
  have p4: "parse_response ex_env ''no braces'' = Inl ValueError"
    using parse_response_all_or_nothing [of ex_env "''no braces''"] unfolding c4
    by (simp add: l b4)
  have p5: "parse_response ex_env ''{oops}'' = Inl JSONDecodeError"
    using parse_response_all_or_nothing [of ex_env "''{oops}''"] unfolding c5
    by (simp add: l b5)
  from c1 p1 c2 p2 c3 b3 p3 p4 p5 show ?thesis
    by (intro conjI)
qed

text \<open>
  The claim as stated fails when the direct parse raises something else than
  \<^verbatim>\<open>JSONDecodeError\<close>: on 100000 opening brackets followed by an empty object
  \<^verbatim>\<open>json.loads\<close> raises \<^verbatim>\<open>RecursionError\<close>, which is not a \<^verbatim>\<open>ValueError\<close>; the parser
  raises it and never tries the brace span, which is the empty object and parses.
\<close>

theorem parse_response_recursion_error_escapes:
  "parse_response ex_env_nested ex_nested_text = Inl RecursionError
   \<and> \<not> is_ValueError RecursionError
   \<and> brace_span (clean_text ex_nested_text) = Some ''{}''
   \<and> json_loads ex_env_nested ''{}'' = Inr (JObj [])"
proof -
  have 1: "json_loads ex_env_nested ex_nested_text = Inl RecursionError"
    by (simp add: ex_env_nested_def)
  have 2: "json_loads ex_env_nested ''{}'' = Inr (JObj [])"
    using ex_nested_text_not_object by (simp add: ex_env_nested_def)
  have 3: "parse_response ex_env_nested ex_nested_text = Inl RecursionError"
    unfolding parse_response_spec clean_ex_nested_text 1 by simp
  from 1 2 3 show ?thesis
    by (simp add: clean_ex_nested_text span_ex_nested_text)
qed

section \<open>Properties of the response normalizer\<close>

lemma round2_bounds: "0 \<le> x \<Longrightarrow> x \<le> 1 \<Longrightarrow> 0 \<le> round2 x \<and> round2 x \<le> 1"
proof -
  assume a: "0 \<le> x" "x \<le> 1"
  have "of_int 0 \<le> x * 100" "x * 100 \<le> of_int 100" using a by simp_all
  from round_half_even_bounds [OF this]
  have "0 \<le> round_half_even (x * 100)" "round_half_even (x * 100) \<le> 100" by simp_all
  then show ?thesis
    unfolding round2_def by simp
qed

lemma map_JStr_eq_iff: "map JStr a = map JStr b \<longleftrightarrow> a = b"
  by (rule inj_map_eq_map) (simp add: inj_def)

lemma str_items_Some_iff: "str_items xs = Some ys \<longleftrightarrow> xs = map JStr ys"
proof (induction xs arbitrary: ys)
  case Nil
  show ?case by auto
next
  case (Cons x xs)
  show ?case
  proof (cases x)
    case (JStr s)
    show ?thesis
    proof (cases "str_items xs")
      case None
      with Cons [of "tl ys"] JStr show ?thesis
        by (cases ys) auto
    next
      case (Some zs)
      with Cons [of zs] have xs: "xs = map JStr zs" by simp
      show ?thesis
        using JStr Some xs by (cases ys) (auto simp: map_JStr_eq_iff)
    qed
  qed (cases ys; simp)+
qed

lemma py_float_Inr_iff: "(\<exists>x. py_float E v = Inr x) \<longleftrightarrow> coercible E v"
  by (cases v) (auto simp: py_float_def coercible_def split: option.splits)

lemma read_confidence_range:
  "read_confidence E kv = Inr c \<Longrightarrow> 0 \<le> c \<and> c \<le> 1"
  by (auto simp: read_confidence_def split: sum.splits)

lemma read_confidence_Inr_iff:
  "(\<exists>c. read_confidence E kv = Inr c) \<longleftrightarrow>
     (case map_of kv ''confidence_score'' of None \<Rightarrow> True | Some v \<Rightarrow> coercible E v)"
proof (cases "map_of kv ''confidence_score''")
  case None
  then have "read_confidence E kv = Inr 0.7"
    by (simp add: read_confidence_def dict_get_def py_float_def)
  then have ex: "\<exists>c. read_confidence E kv = Inr c"
    by blast
  show ?thesis
    unfolding None using ex by simp
next
  case (Some v)
  have "(\<exists>c. read_confidence E kv = Inr c) \<longleftrightarrow> (\<exists>x. py_float E v = Inr x)"
    using Some by (auto simp: read_confidence_def dict_get_def split: sum.splits)
  then show ?thesis
    using Some by (simp add: py_float_Inr_iff)
qed

lemma read_risk_level_Inr_iff:
  "(\<exists>l. read_risk_level kv = Inr l) \<longleftrightarrow>
     (case map_of kv ''overall_risk_level'' of
        None \<Rightarrow> True | Some (JStr s) \<Rightarrow> True | Some _ \<Rightarrow> False)"
  by (auto simp: read_risk_level_def dict_get_def split: option.splits json.splits)

text \<open>When a list field is read and accepted as a list of strings.\<close>

lemma read_list_strs_iff:
  "(read_list kv k d = Inr sl \<and> as_str_list sl = Some ys) \<longleftrightarrow>
     (sl = SList (map JStr ys)
      \<and> (case map_of kv k of
            None \<Rightarrow> ys = [d]
          | Some (JArr xs) \<Rightarrow> take 10 xs = map JStr ys
          | Some _ \<Rightarrow> False))"
  by (cases sl)
     (auto simp: read_list_def slice10_def dict_get_def str_items_Some_iff
           split: option.splits json.splits)

lemma read_list_SList_iff:
  "read_list kv k d = Inr (SList (map JStr ys)) \<longleftrightarrow>
     (case map_of kv k of
        None \<Rightarrow> ys = [d]
      | Some (JArr xs) \<Rightarrow> take 10 xs = map JStr ys
      | Some _ \<Rightarrow> False)"
  using read_list_strs_iff [of kv k d "SList (map JStr ys)" ys]
  by (simp add: str_items_Some_iff)

lemma list_field_ok_iff:
  "list_field_ok kv k \<longleftrightarrow>
     (\<exists>ys. read_list kv k d = Inr (SList (map JStr ys)) \<and> 1 \<le> length ys \<and> length ys \<le> 10)"
proof (cases "map_of kv k")
  case None
  then show ?thesis
    by (simp add: list_field_ok_def read_list_SList_iff)
next
  case (Some v)
  show ?thesis
  proof (cases v)
    case (JArr xs)
    have "(xs \<noteq> [] \<and> str_items (take 10 xs) \<noteq> None) \<longleftrightarrow>
          (\<exists>ys. take 10 xs = map JStr ys \<and> 1 \<le> length ys \<and> length ys \<le> 10)"
    proof
      assume a: "xs \<noteq> [] \<and> str_items (take 10 xs) \<noteq> None"
      then obtain ys where ys: "take 10 xs = map JStr ys"
        by (auto simp: str_items_Some_iff)
      then have "length ys = length (take 10 xs)" by simp
      with a have "1 \<le> length ys \<and> length ys \<le> 10"
        by (cases xs) simp_all
      with ys show "\<exists>ys. take 10 xs = map JStr ys \<and> 1 \<le> length ys \<and> length ys \<le> 10"
        by blast
    next
      assume "\<exists>ys. take 10 xs = map JStr ys \<and> 1 \<le> length ys \<and> length ys \<le> 10"
      then obtain ys where ys: "take 10 xs = map JStr ys" "1 \<le> length ys"
        by blast
      then have "str_items (take 10 xs) = Some ys"
        by (simp add: str_items_Some_iff)
      moreover have "xs \<noteq> []"
        using ys by auto
      ultimately show "xs \<noteq> [] \<and> str_items (take 10 xs) \<noteq> None"
        by simp
    qed
    with Some JArr show ?thesis
      by (simp add: list_field_ok_def read_list_SList_iff)
  qed (use Some in \<open>simp_all add: list_field_ok_def read_list_SList_iff\<close>)
qed

text \<open>
  \<^verbatim>\<open>validate_response\<close> returns exactly when every reader returns, the three lists are
  lists of strings and the \<^verbatim>\<open>InsightResponse\<close> constraints hold.
\<close>

lemma validate_response_Inr_iff:
  "validate_response E (JObj kv) req = Inr r \<longleftrightarrow>
     (\<exists>lvl c rs ls as.
        read_risk_level kv = Inr lvl \<and> read_confidence E kv = Inr c
        \<and> read_list kv ''key_risks'' ''No risks identified'' = Inr (SList (map JStr rs))
        \<and> read_list kv ''negotiation_levers'' ''Review contracts'' = Inr (SList (map JStr ls))
        \<and> read_list kv ''recommended_actions_next_90_days'' ''Conduct review''
            = Inr (SList (map JStr as))
        \<and> InsightResponse_init (category req) lvl rs ls as (round2 c) = Inr r)"
  (is "?L \<longleftrightarrow> ?R")
proof
  assume ?L
  then obtain lvl c s1 s2 s3 where
    1: "read_risk_level kv = Inr lvl" and 2: "read_confidence E kv = Inr c"
    and 3: "read_list kv ''key_risks'' ''No risks identified'' = Inr s1"
    and 4: "read_list kv ''negotiation_levers'' ''Review contracts'' = Inr s2"
    and 5: "read_list kv ''recommended_actions_next_90_days'' ''Conduct review'' = Inr s3"
    and 6: "(case (as_str_list s1, as_str_list s2, as_str_list s3) of
             (Some rs, Some ls, Some as) \<Rightarrow>
               InsightResponse_init (category req) lvl rs ls as (round2 c)
           | _ \<Rightarrow> Inl ValidationError) = Inr r"
    unfolding validate_response_def by (simp split: sum.splits)
  from 6 obtain rs ls as where
    7: "as_str_list s1 = Some rs" "as_str_list s2 = Some ls" "as_str_list s3 = Some as"
    and 8: "InsightResponse_init (category req) lvl rs ls as (round2 c) = Inr r"
    by (simp split: option.splits)
  from 3 7(1) have "s1 = SList (map JStr rs)" using read_list_strs_iff by blast
  moreover from 4 7(2) have "s2 = SList (map JStr ls)" using read_list_strs_iff by blast
  moreover from 5 7(3) have "s3 = SList (map JStr as)" using read_list_strs_iff by blast
  ultimately show ?R
    using 1 2 3 4 5 8 by blast
next
  assume ?R
  then show ?L
    unfolding validate_response_def by (auto simp: str_items_Some_iff [THEN iffD2])
qed

lemma InsightResponse_init_Inr_iff:
  "InsightResponse_init cat lvl rs ls as c = Inr r \<longleftrightarrow>
     (1 \<le> length rs \<and> length rs \<le> 10 \<and> 1 \<le> length ls \<and> length ls \<le> 10
      \<and> 1 \<le> length as \<and> length as \<le> 10 \<and> 0 \<le> c \<and> c \<le> 1
      \<and> r = \<lparr>resp_category = cat, overall_risk_level = lvl, key_risks = rs,
               negotiation_levers = ls, recommended_actions_next_90_days = as,
               confidence_score = c\<rparr>)"
  by (auto simp: InsightResponse_init_def)

text \<open>
  The normalizer returns on a parsed dictionary exactly when it is well-shaped, and a
  result it returns satisfies the \<^verbatim>\<open>InsightResponse\<close> constraints, with the
  default placeholder for an absent list field.
\<close>

lemma validate_response_returns_iff_conforming:
  "((\<exists>r. validate_response E (JObj kv) req = Inr r) \<longleftrightarrow> well_shaped E kv)
   \<and> (\<forall>r. validate_response E (JObj kv) req = Inr r \<longrightarrow>
         1 \<le> length (key_risks r) \<and> length (key_risks r) \<le> 10
         \<and> 1 \<le> length (negotiation_levers r) \<and> length (negotiation_levers r) \<le> 10
         \<and> 1 \<le> length (recommended_actions_next_90_days r)
         \<and> length (recommended_actions_next_90_days r) \<le> 10
         \<and> 0 \<le> confidence_score r \<and> confidence_score r \<le> 1
         \<and> (map_of kv ''key_risks'' = None \<longrightarrow> key_risks r = [''No risks identified''])
         \<and> (map_of kv ''negotiation_levers'' = None \<longrightarrow>
               negotiation_levers r = [''Review contracts''])
         \<and> (map_of kv ''recommended_actions_next_90_days'' = None \<longrightarrow>
               recommended_actions_next_90_days r = [''Conduct review'']))"
proof (intro conjI allI impI)
  show "(\<exists>r. validate_response E (JObj kv) req = Inr r) \<longleftrightarrow> well_shaped E kv"
  proof
    assume "\<exists>r. validate_response E (JObj kv) req = Inr r"
    then obtain r lvl c rs ls as where
      1: "read_risk_level kv = Inr lvl" and 2: "read_confidence E kv = Inr c"
      and 3: "read_list kv ''key_risks'' ''No risks identified'' = Inr (SList (map JStr rs))"
      and 4: "read_list kv ''negotiation_levers'' ''Review contracts''
                = Inr (SList (map JStr ls))"
      and 5: "read_list kv ''recommended_actions_next_90_days'' ''Conduct review''
                = Inr (SList (map JStr as))"
      and 6: "InsightResponse_init (category req) lvl rs ls as (round2 c) = Inr r"
      unfolding validate_response_Inr_iff by blast
    from 6 have len: "1 \<le> length rs \<and> length rs \<le> 10" "1 \<le> length ls \<and> length ls \<le> 10"
      "1 \<le> length as \<and> length as \<le> 10"
      unfolding InsightResponse_init_Inr_iff by simp_all
    have "list_field_ok kv ''key_risks''"
      unfolding list_field_ok_iff [where d = "''No risks identified''"] using 3 len(1) by blast
    moreover have "list_field_ok kv ''negotiation_levers''"
      unfolding list_field_ok_iff [where d = "''Review contracts''"] using 4 len(2) by blast
    moreover have "list_field_ok kv ''recommended_actions_next_90_days''"
      unfolding list_field_ok_iff [where d = "''Conduct review''"] using 5 len(3) by blast
    moreover have "case map_of kv ''overall_risk_level'' of
        None \<Rightarrow> True | Some (JStr s) \<Rightarrow> True | Some _ \<Rightarrow> False"
      using 1 read_risk_level_Inr_iff [of kv] by blast
    moreover have "case map_of kv ''confidence_score'' of
        None \<Rightarrow> True | Some v \<Rightarrow> coercible E v"
      using 2 read_confidence_Inr_iff [of E kv] by blast
    ultimately show "well_shaped E kv"
      unfolding well_shaped_def by blast
  next
    assume w: "well_shaped E kv"
    then obtain lvl where 1: "read_risk_level kv = Inr lvl"
      unfolding well_shaped_def using read_risk_level_Inr_iff [of kv] by blast
    from w obtain c where 2: "read_confidence E kv = Inr c"
      unfolding well_shaped_def using read_confidence_Inr_iff [of E kv] by blast
    from w obtain rs where
      3: "read_list kv ''key_risks'' ''No risks identified'' = Inr (SList (map JStr rs))"
         "1 \<le> length rs" "length rs \<le> 10"
      unfolding well_shaped_def list_field_ok_iff [where d = "''No risks identified''"
          and k = "''key_risks''"]
      by blast
    from w obtain ls where
      4: "read_list kv ''negotiation_levers'' ''Review contracts'' = Inr (SList (map JStr ls))"
         "1 \<le> length ls" "length ls \<le> 10"
      unfolding well_shaped_def list_field_ok_iff [where d = "''Review contracts''"
          and k = "''negotiation_levers''"]
      by blast
    from w obtain as where
      5: "read_list kv ''recommended_actions_next_90_days'' ''Conduct review''
            = Inr (SList (map JStr as))"
         "1 \<le> length as" "length as \<le> 10"
      unfolding well_shaped_def list_field_ok_iff [where d = "''Conduct review''"
          and k = "''recommended_actions_next_90_days''"]
      by blast
    from read_confidence_range [OF 2] have "0 \<le> round2 c \<and> round2 c \<le> 1"
      using round2_bounds by blast
    then have "\<exists>r. InsightResponse_init (category req) lvl rs ls as (round2 c) = Inr r"
      unfolding InsightResponse_init_Inr_iff using 3(2,3) 4(2,3) 5(2,3) by blast
    then show "\<exists>r. validate_response E (JObj kv) req = Inr r"
      unfolding validate_response_Inr_iff using 1 2 3(1) 4(1) 5(1) by blast
  qed
next
  fix r
  assume "validate_response E (JObj kv) req = Inr r"
  then obtain lvl c rs ls as where
    3: "read_list kv ''key_risks'' ''No risks identified'' = Inr (SList (map JStr rs))"
    and 4: "read_list kv ''negotiation_levers'' ''Review contracts''
              = Inr (SList (map JStr ls))"
    and 5: "read_list kv ''recommended_actions_next_90_days'' ''Conduct review''
              = Inr (SList (map JStr as))"
    and 6: "InsightResponse_init (category req) lvl rs ls as (round2 c) = Inr r"
    unfolding validate_response_Inr_iff by blast
  note f = 6 [unfolded InsightResponse_init_Inr_iff]
  from f show "1 \<le> length (key_risks r)" "length (key_risks r) \<le> 10"
    "1 \<le> length (negotiation_levers r)" "length (negotiation_levers r) \<le> 10"
    "1 \<le> length (recommended_actions_next_90_days r)"
    "length (recommended_actions_next_90_days r) \<le> 10"
    "0 \<le> confidence_score r" "confidence_score r \<le> 1"
    by simp_all
  {
    assume "map_of kv ''key_risks'' = None"
    with 3 have "rs = [''No risks identified'']"
      by (simp add: read_list_SList_iff)
    with f show "key_risks r = [''No risks identified'']" by simp
  }
  {
    assume "map_of kv ''negotiation_levers'' = None"
    with 4 have "ls = [''Review contracts'']"
      by (simp add: read_list_SList_iff)
    with f show "negotiation_levers r = [''Review contracts'']" by simp
  }
  {
    assume "map_of kv ''recommended_actions_next_90_days'' = None"
    with 5 have "as = [''Conduct review'']"
      by (simp add: read_list_SList_iff)
    with f show "recommended_actions_next_90_days r = [''Conduct review'']" by simp
  }
qed

text \<open>
  Claim C3, as amended. For every parsed dictionary whose fields are each absent or
  well-shaped (the risk level a string, the confidence coercible to a number, each list
  field a non-empty list whose first 10 entries are strings) the normalizer does not
  raise and returns a result. Every result it returns is fully conforming: each of the
  three lists has between 1 and 10 entries, the confidence is in [0, 1], and the
  single-element default placeholder stands for a list field that is absent. A risk
  level that is present but not a string raises \<^verbatim>\<open>AttributeError\<close>, and a confidence
  that is present but cannot be coerced to a number raises as well.
\<close>

theorem validate_response_on_well_shaped:
  "(well_shaped E kv \<longrightarrow> (\<exists>r. validate_response E (JObj kv) req = Inr r))
   \<and> (\<forall>r. validate_response E (JObj kv) req = Inr r \<longrightarrow>
         1 \<le> length (key_risks r) \<and> length (key_risks r) \<le> 10
         \<and> 1 \<le> length (negotiation_levers r) \<and> length (negotiation_levers r) \<le> 10
         \<and> 1 \<le> length (recommended_actions_next_90_days r)
         \<and> length (recommended_actions_next_90_days r) \<le> 10
         \<and> 0 \<le> confidence_score r \<and> confidence_score r \<le> 1
         \<and> (map_of kv ''key_risks'' = None \<longrightarrow> key_risks r = [''No risks identified''])
         \<and> (map_of kv ''negotiation_levers'' = None \<longrightarrow>
               negotiation_levers r = [''Review contracts''])
         \<and> (map_of kv ''recommended_actions_next_90_days'' = None \<longrightarrow>
               recommended_actions_next_90_days r = [''Conduct review'']))
   \<and> (\<forall>v. map_of kv ''overall_risk_level'' = Some v \<and> (\<forall>s. v \<noteq> JStr s) \<longrightarrow>
         validate_response E (JObj kv) req = Inl AttributeError)
   \<and> (\<forall>v. map_of kv ''confidence_score'' = Some v \<and> \<not> coercible E v \<longrightarrow>
         (\<exists>e. validate_response E (JObj kv) req = Inl e))"
proof -
  note iff = validate_response_returns_iff_conforming [of E kv req]
  have 1: "well_shaped E kv \<longrightarrow> (\<exists>r. validate_response E (JObj kv) req = Inr r)"
    using iff by blast
  have 3: "\<forall>v. map_of kv ''overall_risk_level'' = Some v \<and> (\<forall>s. v \<noteq> JStr s) \<longrightarrow>
         validate_response E (JObj kv) req = Inl AttributeError"
  proof (intro allI impI)
    fix v
    assume a: "map_of kv ''overall_risk_level'' = Some v \<and> (\<forall>s. v \<noteq> JStr s)"
    then have "read_risk_level kv = Inl AttributeError"
      by (cases v) (simp_all add: read_risk_level_def dict_get_def)
    then show "validate_response E (JObj kv) req = Inl AttributeError"
      by (simp add: validate_response_def)
  qed
  have 4: "\<forall>v. map_of kv ''confidence_score'' = Some v \<and> \<not> coercible E v \<longrightarrow>
         (\<exists>e. validate_response E (JObj kv) req = Inl e)"
  proof (intro allI impI)
    fix v
    assume "map_of kv ''confidence_score'' = Some v \<and> \<not> coercible E v"
    then have "\<not> well_shaped E kv"
      by (simp add: well_shaped_def)
    with iff have "\<not> (\<exists>r. validate_response E (JObj kv) req = Inr r)"
      by blast
    then show "\<exists>e. validate_response E (JObj kv) req = Inl e"
      by (cases "validate_response E (JObj kv) req") auto
  qed
  from 1 3 4 iff show ?thesis
    by (intro conjI) blast+
qed

text \<open>
  The sample object is well-shaped and normalized; the object whose risk level is
  \<^verbatim>\<open>null\<close> raises.
\<close>

theorem validate_response_on_well_shaped_witness:
  "well_shaped ex_env ex_fields
   \<and> (\<exists>r. validate_response ex_env (JObj ex_fields) ex_request = Inr r
        \<and> length (key_risks r) \<le> 10
        \<and> recommended_actions_next_90_days r = [''Conduct review''])
   \<and> map_of ex_fields_null_level ''overall_risk_level'' = Some JNull
   \<and> validate_response ex_env (JObj ex_fields_null_level) ex_request = Inl AttributeError"
proof -
  have w: "well_shaped ex_env ex_fields"
    by (simp add: well_shaped_def list_field_ok_def coercible_def ex_fields_def)
  have a: "map_of ex_fields ''recommended_actions_next_90_days'' = None"
    by (simp add: ex_fields_def)
  have n: "map_of ex_fields_null_level ''overall_risk_level'' = Some JNull"
    by (simp add: ex_fields_null_level_def)
  note t1 = validate_response_on_well_shaped [of ex_env ex_fields ex_request]
  note t2 = validate_response_on_well_shaped [of ex_env ex_fields_null_level ex_request]
  from t1 w obtain r where r: "validate_response ex_env (JObj ex_fields) ex_request = Inr r"
    by blast
  with t1 a have "length (key_risks r) \<le> 10"
    "recommended_actions_next_90_days r = [''Conduct review'']"
    by blast+
  moreover from t2 n
  have "validate_response ex_env (JObj ex_fields_null_level) ex_request = Inl AttributeError"
    by blast
  ultimately show ?thesis
    using r w n by blast
qed

text \<open>
  The claim as stated fails: a risk level that is present but not a string raises
  \<^verbatim>\<open>AttributeError\<close>; the normalizer does not return a result for it.
\<close>

theorem validate_response_null_level_raises:
  "validate_response ex_env (JObj ex_fields_null_level) ex_request = Inl AttributeError"
  by (simp add: validate_response_def read_risk_level_def dict_get_def
      ex_fields_null_level_def)

text \<open>
  Claim C5, as amended. Whenever the normalizer returns a result for a parsed dictionary:
  the category is the request's; the risk level is Medium when the field is absent, and
  otherwise the field is a string and the level is its case-insensitive match against
  low, medium, high, Medium when it matches none; the confidence is the field coerced to
  a number (0.7 when absent), clamped into [0, 1] and rounded to 2 decimals; each list is
  its default placeholder when the field is absent, and otherwise the first 10 entries
  of the parsed list.
\<close>

theorem validate_response_fields:
  assumes "validate_response E (JObj kv) req = Inr r"
  shows "resp_category r = category req
     \<and> (map_of kv ''overall_risk_level'' = None \<and> overall_risk_level r = MEDIUM
        \<or> (\<exists>s. map_of kv ''overall_risk_level'' = Some (JStr s)
              \<and> overall_risk_level r =
                  (if lower s = ''low'' then LOW
                   else if lower s = ''medium'' then MEDIUM
                   else if lower s = ''high'' then HIGH
                   else MEDIUM)))
     \<and> (\<exists>x. (map_of kv ''confidence_score'' = None \<and> x = 0.7
              \<or> (\<exists>v. map_of kv ''confidence_score'' = Some v \<and> py_float E v = Inr x))
           \<and> confidence_score r = round2 (max 0 (min 1 x)))
     \<and> (map_of kv ''key_risks'' = None \<and> key_risks r = [''No risks identified'']
        \<or> (\<exists>xs. map_of kv ''key_risks'' = Some (JArr xs)
               \<and> map JStr (key_risks r) = take 10 xs))
     \<and> (map_of kv ''negotiation_levers'' = None
          \<and> negotiation_levers r = [''Review contracts'']
        \<or> (\<exists>xs. map_of kv ''negotiation_levers'' = Some (JArr xs)
               \<and> map JStr (negotiation_levers r) = take 10 xs))
     \<and> (map_of kv ''recommended_actions_next_90_days'' = None
          \<and> recommended_actions_next_90_days r = [''Conduct review'']
        \<or> (\<exists>xs. map_of kv ''recommended_actions_next_90_days'' = Some (JArr xs)
               \<and> map JStr (recommended_actions_next_90_days r) = take 10 xs))"
proof -
  from assms obtain lvl c rs ls as where
    1: "read_risk_level kv = Inr lvl" and 2: "read_confidence E kv = Inr c"
    and 3: "read_list kv ''key_risks'' ''No risks identified'' = Inr (SList (map JStr rs))"
    and 4: "read_list kv ''negotiation_levers'' ''Review contracts''
              = Inr (SList (map JStr ls))"
    and 5: "read_list kv ''recommended_actions_next_90_days'' ''Conduct review''
              = Inr (SList (map JStr as))"
    and 6: "InsightResponse_init (category req) lvl rs ls as (round2 c) = Inr r"
    unfolding validate_response_Inr_iff by blast
  from 6 have r: "r = \<lparr>resp_category = category req, overall_risk_level = lvl, key_risks = rs,
               negotiation_levers = ls, recommended_actions_next_90_days = as,
               confidence_score = round2 c\<rparr>"
    unfolding InsightResponse_init_Inr_iff by simp
  have lists: "\<And>k d ys. read_list kv k d = Inr (SList (map JStr ys)) \<Longrightarrow>
      map_of kv k = None \<and> ys = [d]
      \<or> (\<exists>xs. map_of kv k = Some (JArr xs) \<and> map JStr ys = take 10 xs)"
    unfolding read_list_SList_iff by (auto split: option.splits json.splits)
  have lv: "map_of kv ''overall_risk_level'' = None \<and> lvl = MEDIUM
        \<or> (\<exists>s. map_of kv ''overall_risk_level'' = Some (JStr s)
              \<and> lvl = (if lower s = ''low'' then LOW
                   else if lower s = ''medium'' then MEDIUM
                   else if lower s = ''high'' then HIGH
                   else MEDIUM))"
  proof (cases "map_of kv ''overall_risk_level''")
    case None
    have "lower ''Medium'' = ''medium''"
      by code_simp
    with None 1 show ?thesis
      by (simp add: read_risk_level_def dict_get_def risk_map_get_def)
  next
    case (Some v)
    with 1 show ?thesis
      by (cases v) (simp_all add: read_risk_level_def dict_get_def risk_map_get_def)
  qed
  have cf: "\<exists>x. (map_of kv ''confidence_score'' = None \<and> x = 0.7
              \<or> (\<exists>v. map_of kv ''confidence_score'' = Some v \<and> py_float E v = Inr x))
           \<and> c = max 0 (min 1 x)"
  proof (cases "map_of kv ''confidence_score''")
    case None
    with 2 have "c = max 0 (min 1 0.7)"
      by (simp add: read_confidence_def dict_get_def py_float_def)
    with None show ?thesis by blast
  next
    case (Some v)
    with 2 obtain x where "py_float E v = Inr x" "c = max 0 (min 1 x)"
      by (auto simp: read_confidence_def dict_get_def split: sum.splits)
    with Some show ?thesis by blast
  qed
  from cf have cf': "\<exists>x. (map_of kv ''confidence_score'' = None \<and> x = 0.7
              \<or> (\<exists>v. map_of kv ''confidence_score'' = Some v \<and> py_float E v = Inr x))
           \<and> round2 c = round2 (max 0 (min 1 x))"
    by blast
  have sel: "resp_category r = category req" "overall_risk_level r = lvl" "key_risks r = rs"
    "negotiation_levers r = ls" "recommended_actions_next_90_days r = as"
    "confidence_score r = round2 c"
    unfolding r by simp_all
  show ?thesis
    unfolding sel using lv cf' lists [OF 3] lists [OF 4] lists [OF 5]
    by (intro conjI) (rule refl, assumption+)
qed

text \<open>
  The sample object: level High from \<^verbatim>\<open>HIGH\<close>, 0.876 rounded to 0.88, the first 10 of
  12 risks, the default action.
\<close>

theorem validate_response_fields_witness:
  "\<exists>r. validate_response ex_env (JObj ex_fields) ex_request = Inr r
       \<and> resp_category r = ''IT Hardware''
       \<and> overall_risk_level r = HIGH
       \<and> confidence_score r = 0.88
       \<and> key_risks r = [''r1'', ''r2'', ''r3'', ''r4'', ''r5'', ''r6'', ''r7'', ''r8'', ''r9'',
                         ''r10'']
       \<and> negotiation_levers r = [''Volume'']
       \<and> recommended_actions_next_90_days r = [''Conduct review'']"
proof -
  have lw: "lower ''HIGH'' = ''high''" "lower ''Medium'' = ''medium''"
    by code_simp+
  have rd: "round2 0.876 = 0.88"
    by (simp add: round2_def round_half_even_def)
  have 1: "read_risk_level ex_fields = Inr HIGH"
    by (simp add: read_risk_level_def dict_get_def risk_map_get_def lw ex_fields_def)
  have 2: "read_confidence ex_env ex_fields = Inr 0.876"
    by (simp add: read_confidence_def dict_get_def py_float_def ex_fields_def)
  have 3: "read_list ex_fields ''key_risks'' ''No risks identified'' =
      Inr (SList (map JStr [''r1'', ''r2'', ''r3'', ''r4'', ''r5'', ''r6'', ''r7'', ''r8'',
                            ''r9'', ''r10'']))"
    by (simp add: read_list_def slice10_def dict_get_def ex_fields_def)
  have 4: "read_list ex_fields ''negotiation_levers'' ''Review contracts'' =
      Inr (SList (map JStr [''Volume'']))"
    by (simp add: read_list_def slice10_def dict_get_def ex_fields_def)
  have 5: "read_list ex_fields ''recommended_actions_next_90_days'' ''Conduct review'' =
      Inr (SList (map JStr [''Conduct review'']))"
    by (simp add: read_list_def slice10_def dict_get_def ex_fields_def)
  have 6: "InsightResponse_init (category ex_request) HIGH
       [''r1'', ''r2'', ''r3'', ''r4'', ''r5'', ''r6'', ''r7'', ''r8'', ''r9'', ''r10'']
       [''Volume''] [''Conduct review''] (round2 0.876) =
     Inr \<lparr>resp_category = ''IT Hardware'', overall_risk_level = HIGH,
          key_risks = [''r1'', ''r2'', ''r3'', ''r4'', ''r5'', ''r6'', ''r7'', ''r8'', ''r9'',
                       ''r10''],
          negotiation_levers = [''Volume''],
          recommended_actions_next_90_days = [''Conduct review''],
          confidence_score = 0.88\<rparr>"
    unfolding rd by (simp add: InsightResponse_init_def ex_request_def)
  have v: "validate_response ex_env (JObj ex_fields) ex_request =
     Inr \<lparr>resp_category = ''IT Hardware'', overall_risk_level = HIGH,
          key_risks = [''r1'', ''r2'', ''r3'', ''r4'', ''r5'', ''r6'', ''r7'', ''r8'', ''r9'',
                       ''r10''],
          negotiation_levers = [''Volume''],
          recommended_actions_next_90_days = [''Conduct review''],
          confidence_score = 0.88\<rparr>"
    unfolding validate_response_Inr_iff using 1 2 3 4 5 6 by blast
  from validate_response_fields [OF v] v show ?thesis
    by simp
qed

text \<open>
  The claim as stated fails: a risk level that is a number is not recognized, and the
  normalizer raises \<^verbatim>\<open>AttributeError\<close> instead of defaulting to Medium; no result
  is produced.
\<close>

theorem validate_response_numeric_level_raises:
  "validate_response ex_env (JObj ex_fields_numeric_level) ex_request = Inl AttributeError"
  by (simp add: validate_response_def read_risk_level_def dict_get_def
      ex_fields_numeric_level_def)

section \<open>Properties of the external path and the orchestrator\<close>

lemma validate_response_confidence:
  assumes "validate_response E data req = Inr v"
  shows "\<exists>kv x. data = JObj kv
           \<and> py_float E (dict_get kv ''confidence_score'' (JFloat 0.7)) = Inr x
           \<and> confidence_score v = round2 (max 0 (min 1 x))
           \<and> 0 \<le> confidence_score v \<and> confidence_score v \<le> 1"
proof -
  from assms obtain kv where d: "data = JObj kv"
    by (cases data) (simp_all add: validate_response_def)
  from assms [unfolded d validate_response_Inr_iff] obtain lvl c rs ls as where
    c: "read_confidence E kv = Inr c"
    and i: "InsightResponse_init (category req) lvl rs ls as (round2 c) = Inr v"
    by blast
  from c obtain x where x: "py_float E (dict_get kv ''confidence_score'' (JFloat 0.7)) = Inr x"
    "c = max 0 (min 1 x)"
    by (auto simp: read_confidence_def split: sum.splits)
  from i have "confidence_score v = round2 c" "0 \<le> round2 c" "round2 c \<le> 1"
    unfolding InsightResponse_init_Inr_iff by simp_all
  with x d show ?thesis by auto
qed

lemma fallback_confidence:
  "FallbackInsightGenerator_generate req = Inr r \<Longrightarrow> confidence_score r = 0.65"
  by (auto simp: FallbackInsightGenerator_generate_def InsightResponse_init_def Let_def
      split: if_splits prod.splits)

text \<open>
  The external path returns exactly when every stage does, and then adds the bonus once.
\<close>

lemma GroqService_generate_insights_Inr_iff:
  "GroqService_generate_insights E svc req = Inr r \<longleftrightarrow>
     (\<exists>user_prompt raw data v.
        build_user_prompt E req = Inr user_prompt
        \<and> call_api svc (system_prompt E) user_prompt = Inr raw
        \<and> parse_response E raw = Inr data
        \<and> validate_response E data req = Inr v
        \<and> r = v\<lparr>confidence_score := min 0.95 (confidence_score v + 0.2)\<rparr>)"
  unfolding GroqService_generate_insights_def
  by (auto split: sum.splits)

lemma build_user_prompt_valid:
  "valid_request req \<Longrightarrow> build_user_prompt E req = Inr (render_user_prompt E req)"
  using total_spend_nonzero [of req] by (simp add: build_user_prompt_def)

text \<open>The normalized results of the two sample answers.\<close>

lemma round2_tenths: "round2 0.7 = 0.7" "round2 0.9 = 0.9"
  by (simp_all add: round2_def round_half_even_def)

lemma lower_Medium: "lower ''Medium'' = ''medium''"
  by code_simp

lemma validate_response_defaults:
  assumes "read_confidence E kv = Inr c" and "round2 c = c" and "0 \<le> c" and "c \<le> 1"
    and "map_of kv ''overall_risk_level'' = None" and "map_of kv ''key_risks'' = None"
    and "map_of kv ''negotiation_levers'' = None"
    and "map_of kv ''recommended_actions_next_90_days'' = None"
  shows "validate_response E (JObj kv) req =
      Inr \<lparr>resp_category = category req, overall_risk_level = MEDIUM,
           key_risks = [''No risks identified''], negotiation_levers = [''Review contracts''],
           recommended_actions_next_90_days = [''Conduct review''], confidence_score = c\<rparr>"
proof -
  have rl: "read_risk_level kv = Inr MEDIUM"
    using assms(5) by (simp add: read_risk_level_def dict_get_def risk_map_get_def lower_Medium)
  have i: "InsightResponse_init (category req) MEDIUM [''No risks identified'']
        [''Review contracts''] [''Conduct review''] (round2 c) =
      Inr \<lparr>resp_category = category req, overall_risk_level = MEDIUM,
           key_risks = [''No risks identified''], negotiation_levers = [''Review contracts''],
           recommended_actions_next_90_days = [''Conduct review''], confidence_score = c\<rparr>"
    unfolding assms(2) using assms(3,4) by (simp add: InsightResponse_init_def)
  have l1: "read_list kv ''key_risks'' ''No risks identified''
                = Inr (SList (map JStr [''No risks identified'']))"
    and l2: "read_list kv ''negotiation_levers'' ''Review contracts''
                = Inr (SList (map JStr [''Review contracts'']))"
    and l3: "read_list kv ''recommended_actions_next_90_days'' ''Conduct review''
                = Inr (SList (map JStr [''Conduct review'']))"
    unfolding read_list_SList_iff using assms(6,7,8) by simp_all
  show ?thesis
    unfolding validate_response_Inr_iff using rl assms(1) i l1 l2 l3 by blast
qed

lemma clean_ex_confident_text: "clean_text ex_confident_text = ex_confident_text"
  by (rule clean_text_plain) (simp_all add: ex_confident_text_def isspace_def)

text \<open>
  Claim C7. The external path returns a result exactly when the prompt is built, the
  endpoint answers, its text parses and the parsed object normalizes, and the result is
  then the normalized result of that parsed object with only its confidence replaced,
  by min(0.95, confidence + 0.2). A normalized confidence is the parsed field (0.7 when
  absent) clamped into [0, 1] and rounded to 2 decimals, so the bonus is added once,
  after clamping and rounding. The confidence of a successful external result lies in
  [0.2, 0.95], the orchestrator returns that result unchanged, and a result of the
  fallback has confidence 0.65, with no bonus.
\<close>

theorem external_confidence_bonus:
  "(GroqService_generate_insights E svc req = Inr r \<longleftrightarrow>
      (\<exists>user_prompt raw data v.
         build_user_prompt E req = Inr user_prompt
         \<and> call_api svc (system_prompt E) user_prompt = Inr raw
         \<and> parse_response E raw = Inr data
         \<and> validate_response E data req = Inr v
         \<and> r = v\<lparr>confidence_score := min 0.95 (confidence_score v + 0.2)\<rparr>))
   \<and> (\<forall>data v. validate_response E data req = Inr v \<longrightarrow>
         (\<exists>kv x. data = JObj kv
            \<and> py_float E (dict_get kv ''confidence_score'' (JFloat 0.7)) = Inr x
            \<and> confidence_score v = round2 (max 0 (min 1 x))
            \<and> 0 \<le> confidence_score v \<and> confidence_score v \<le> 1))
   \<and> (GroqService_generate_insights E svc req = Inr r \<longrightarrow>
         0.2 \<le> confidence_score r \<and> confidence_score r \<le> 0.95
         \<and> generate_insights E (Some svc) req = Inr r)
   \<and> (\<forall>r'. FallbackInsightGenerator_generate req = Inr r' \<longrightarrow> confidence_score r' = 0.65)"
proof -
  note 1 = GroqService_generate_insights_Inr_iff [of E svc req r]
  have 2: "\<forall>data v. validate_response E data req = Inr v \<longrightarrow>
         (\<exists>kv x. data = JObj kv
            \<and> py_float E (dict_get kv ''confidence_score'' (JFloat 0.7)) = Inr x
            \<and> confidence_score v = round2 (max 0 (min 1 x))
            \<and> 0 \<le> confidence_score v \<and> confidence_score v \<le> 1)"
    using validate_response_confidence by blast
  have 3: "GroqService_generate_insights E svc req = Inr r \<longrightarrow>
         0.2 \<le> confidence_score r \<and> confidence_score r \<le> 0.95
         \<and> generate_insights E (Some svc) req = Inr r"
  proof
    assume g: "GroqService_generate_insights E svc req = Inr r"
    then obtain data v where
      v: "validate_response E data req = Inr v"
      and r: "r = v\<lparr>confidence_score := min 0.95 (confidence_score v + 0.2)\<rparr>"
      unfolding GroqService_generate_insights_Inr_iff by blast
    from validate_response_confidence [OF v] have b:
      "0 \<le> confidence_score v" "confidence_score v \<le> 1"
      by blast+
    have c: "confidence_score r = min 0.95 (confidence_score v + 0.2)"
      unfolding r by simp
    have rng: "0.2 \<le> confidence_score r" "confidence_score r \<le> 0.95"
      unfolding c min_def using b by auto
    have "generate_insights E (Some svc) req = Inr r"
      unfolding generate_insights_def using g by simp
    with rng show "0.2 \<le> confidence_score r \<and> confidence_score r \<le> 0.95
         \<and> generate_insights E (Some svc) req = Inr r"
      by blast
  qed
  have 4: "\<forall>r'. FallbackInsightGenerator_generate req = Inr r' \<longrightarrow> confidence_score r' = 0.65"
    using fallback_confidence by blast
  from 1 2 3 4 show ?thesis
    by (intro conjI)
qed

text \<open>
  An endpoint that answers with an empty object: default confidence 0.7, returned 0.9.
  An endpoint that answers with a confidence of 0.9: returned 0.95, the cap.
\<close>

theorem external_confidence_bonus_witness:
  "(\<exists>r. GroqService_generate_insights ex_env ex_service ex_request = Inr r
       \<and> confidence_score r = 0.9
       \<and> generate_insights ex_env (Some ex_service) ex_request = Inr r)
   \<and> (\<exists>r. GroqService_generate_insights ex_env_confident ex_service_confident ex_request = Inr r
       \<and> confidence_score r = 0.95
       \<and> generate_insights ex_env_confident (Some ex_service_confident) ex_request = Inr r)"
proof -
  let ?v = "\<lambda>c. \<lparr>resp_category = category ex_request, overall_risk_level = MEDIUM,
           key_risks = [''No risks identified''], negotiation_levers = [''Review contracts''],
           recommended_actions_next_90_days = [''Conduct review''], confidence_score = c\<rparr>"
  let ?r = "\<lambda>c. (?v c)\<lparr>confidence_score := min 0.95 (confidence_score (?v c) + 0.2)\<rparr>"
  have u: "build_user_prompt ex_env ex_request = Inr (render_user_prompt ex_env ex_request)"
    "build_user_prompt ex_env_confident ex_request
       = Inr (render_user_prompt ex_env_confident ex_request)"
    using valid_ex_request by (rule build_user_prompt_valid)+
  have a1: "call_api ex_service (system_prompt ex_env) (render_user_prompt ex_env ex_request)
            = Inr ''{}''"
    by (simp add: ex_service_def)
  have a2: "call_api ex_service_confident (system_prompt ex_env_confident)
              (render_user_prompt ex_env_confident ex_request) = Inr ex_confident_text"
    by (simp add: ex_service_confident_def)
  have c: "clean_text ''{}'' = ''{}''"
    by (simp add: clean_text_def strip_def rstrip_def isspace_def startswith_def fence_def)
  have p1: "parse_response ex_env ''{}'' = Inr (JObj [])"
    unfolding parse_response_def Let_def c by (simp add: ex_env_def)
  have p2: "parse_response ex_env_confident ex_confident_text
      = Inr (JObj [(''confidence_score'', JFloat 0.9)])"
    unfolding parse_response_def Let_def clean_ex_confident_text
    by (simp add: ex_env_confident_def)
  have v1: "validate_response ex_env (JObj []) ex_request = Inr (?v 0.7)"
    by (rule validate_response_defaults)
      (simp_all add: read_confidence_def dict_get_def py_float_def round2_tenths)
  have v2: "validate_response ex_env_confident (JObj [(''confidence_score'', JFloat 0.9)])
      ex_request = Inr (?v 0.9)"
    by (rule validate_response_defaults)
      (simp_all add: read_confidence_def dict_get_def py_float_def round2_tenths)
  note t1 = external_confidence_bonus [of ex_env ex_service ex_request "?r 0.7"]
  note t2 = external_confidence_bonus
    [of ex_env_confident ex_service_confident ex_request "?r 0.9"]
  have g1: "GroqService_generate_insights ex_env ex_service ex_request = Inr (?r 0.7)"
    using t1 u(1) a1 p1 v1 by blast
  have g2: "GroqService_generate_insights ex_env_confident ex_service_confident ex_request
      = Inr (?r 0.9)"
    using t2 u(2) a2 p2 v2 by blast
  have o1: "generate_insights ex_env (Some ex_service) ex_request = Inr (?r 0.7)"
    using t1 g1 by blast
  have o2: "generate_insights ex_env_confident (Some ex_service_confident) ex_request
      = Inr (?r 0.9)"
    using t2 g2 by blast
  have s1: "confidence_score (?r 0.7) = 0.9"
    by simp
  have s2: "confidence_score (?r 0.9) = 0.95"
    by simp
  from g1 s1 o1 g2 s2 o2 show ?thesis
    by blast
qed

text \<open>On a valid request the external path fails exactly when one of its stages does.\<close>

lemma external_failure_stage:
  assumes "valid_request req"
  shows "GroqService_generate_insights E svc req = Inl e \<longleftrightarrow>
     (call_api svc (system_prompt E) (render_user_prompt E req) = Inl e
      \<or> (\<exists>raw. call_api svc (system_prompt E) (render_user_prompt E req) = Inr raw
            \<and> (parse_response E raw = Inl e
               \<or> (\<exists>data. parse_response E raw = Inr data
                      \<and> validate_response E data req = Inl e))))"
  unfolding GroqService_generate_insights_def build_user_prompt_valid [OF assms]
  by (auto split: sum.splits)

text \<open>
  Claim C2. For every valid request, when the external path fails at a stage (the call
  to the endpoint, the parse of its text, or the normalization of the parsed object),
  the orchestrator returns exactly the result of the fallback rule engine on the same
  request, which is also what it returns with no external service configured; the
  failure is not surfaced.
\<close>

theorem orchestrator_falls_back_on_external_failure:
  assumes "valid_request req"
    and "call_api svc (system_prompt E) (render_user_prompt E req) = Inl e
         \<or> (\<exists>raw. call_api svc (system_prompt E) (render_user_prompt E req) = Inr raw
               \<and> (parse_response E raw = Inl e
                  \<or> (\<exists>data. parse_response E raw = Inr data
                         \<and> validate_response E data req = Inl e)))"
  shows "GroqService_generate_insights E svc req = Inl e
       \<and> (\<exists>r. FallbackInsightGenerator_generate req = Inr r
              \<and> generate_insights E (Some svc) req = Inr r
              \<and> generate_insights E None req = Inr r)"
proof -
  have f: "GroqService_generate_insights E svc req = Inl e"
    unfolding external_failure_stage [OF assms(1)] using assms(2) .
  obtain r where r: "FallbackInsightGenerator_generate req = Inr r"
    using fallback_returns [OF fallback_returns_valid [OF assms(1)]] by blast
  have "generate_insights E (Some svc) req = Inr r"
    unfolding generate_insights_def by (simp add: f r)
  moreover have "generate_insights E None req = Inr r"
    unfolding generate_insights_def by (simp add: r)
  ultimately show ?thesis
    using f r by blast
qed

text \<open>
  Malformed external output, with no braces to recover: the orchestrator's result is the
  fallback's.
\<close>

theorem orchestrator_falls_back_on_external_failure_witness:
  "valid_request ex_request
   \<and> call_api ex_service_garbled (system_prompt ex_env) (render_user_prompt ex_env ex_request)
       = Inr ''no braces''
   \<and> parse_response ex_env ''no braces'' = Inl ValueError
   \<and> GroqService_generate_insights ex_env ex_service_garbled ex_request = Inl ValueError
   \<and> (\<exists>r. FallbackInsightGenerator_generate ex_request = Inr r
          \<and> generate_insights ex_env (Some ex_service_garbled) ex_request = Inr r
          \<and> generate_insights ex_env None ex_request = Inr r)"
proof -
  note v = valid_ex_request
  have a: "call_api ex_service_garbled (system_prompt ex_env)
             (render_user_prompt ex_env ex_request) = Inr ''no braces''"
    by (simp add: ex_service_garbled_def)
  have p: "parse_response ex_env ''no braces'' = Inl ValueError"
    by (simp add: parse_response_def clean_text_def strip_def rstrip_def isspace_def
        startswith_def fence_def ex_env_def)
  have h: "call_api ex_service_garbled (system_prompt ex_env)
             (render_user_prompt ex_env ex_request) = Inl ValueError
         \<or> (\<exists>raw. call_api ex_service_garbled (system_prompt ex_env)
                     (render_user_prompt ex_env ex_request) = Inr raw
               \<and> (parse_response ex_env raw = Inl ValueError
                  \<or> (\<exists>data. parse_response ex_env raw = Inr data
                         \<and> validate_response ex_env data ex_request = Inl ValueError)))"
    using a p by blast
  from orchestrator_falls_back_on_external_failure [OF v h] v a p show ?thesis
    by blast
qed

section \<open>Properties of supplier ingestion\<close>

text \<open>
  Claim C4. The delivery validator maps a numeric input v to v * 100 when 0 <= v <= 1
  and to v otherwise; an ingested supplier stores exactly that value (the rule runs once,
  at construction); and a stored value above 1 is left as it is when the record is
  ingested again.
\<close>

theorem delivery_normalized_once:
  "convert_decimal_to_percentage v = (if 0 \<le> v \<and> v \<le> 1 then v * 100 else v)
   \<and> (1 < v \<longrightarrow> convert_decimal_to_percentage v = v)
   \<and> (\<forall>s. Supplier_init name spend v months single reg = Inr s \<longrightarrow>
         on_time_delivery_pct s = (if 0 \<le> v \<and> v \<le> 1 then v * 100 else v)
         \<and> (1 < on_time_delivery_pct s \<longrightarrow>
              Supplier_init name spend (on_time_delivery_pct s) months single reg = Inr s))"
  by (auto simp: convert_decimal_to_percentage_def Supplier_init_def Let_def split: if_splits)

text \<open>
  0.92 is stored as 92, and ingesting 92 again yields 92.
\<close>

theorem delivery_normalized_once_witness:
  "\<exists>s. Supplier_init ''Acme'' 1000 0.92 6 False ''EU'' = Inr s
       \<and> on_time_delivery_pct s = 92
       \<and> Supplier_init ''Acme'' 1000 92 6 False ''EU'' = Inr s
       \<and> convert_decimal_to_percentage 92 = 92"
proof -
  have i: "Supplier_init ''Acme'' 1000 0.92 6 False ''EU'' =
     Inr \<lparr>supplier_name = ''Acme'', annual_spend_usd = 1000, on_time_delivery_pct = 92,
          contract_expiry_months = 6, single_source_dependency = False, region = ''EU''\<rparr>"
    by (simp add: Supplier_init_def convert_decimal_to_percentage_def)
  note t = delivery_normalized_once [of "0.92" "''Acme''" 1000 6 False "''EU''"]
  from t i have "Supplier_init ''Acme'' 1000 92 6 False ''EU'' =
     Inr \<lparr>supplier_name = ''Acme'', annual_spend_usd = 1000, on_time_delivery_pct = 92,
          contract_expiry_months = 6, single_source_dependency = False, region = ''EU''\<rparr>"
    by simp
  moreover have "convert_decimal_to_percentage 92 = 92"
    using delivery_normalized_once [of 92] by simp
  ultimately show ?thesis
    using i by simp
qed

end
